theory Spec2Isabelle
  imports
    Main
    "HOL-Library.Word"
    "HOL-Library.Signed_Division"
    "HOL-Library.Sublist"
begin

unbundle bit_operations_syntax

section \<open>Scalar types\<close>

text \<open>
  Modelled from the spec: the header \<^verbatim>\<open>defs.h\<close>, which declares \<^verbatim>\<open>UTF8\<close>,
  \<^verbatim>\<open>UTF32\<close>, \<^verbatim>\<open>BYTE\<close> and \<^verbatim>\<open>BOOL\<close>, is not among the sources. The specification
  describes a codepoint as an unsigned 32-bit scalar and the coverage and colour values as
  8-bit bytes, so \<^verbatim>\<open>UTF32\<close> is a 32-bit word and \<^verbatim>\<open>UTF8\<close> and \<^verbatim>\<open>BYTE\<close> are 8-bit words.

  Values of the C type \<^verbatim>\<open>int\<close> (coordinates, extents, counters) are mathematical integers:
  signed overflow is undefined in C, so the model speaks about the runs in which it does not
  happen. Division of such values is C's division, which truncates towards zero: \<open>sdiv\<close>.
\<close>

type_synonym UTF8 = "8 word"
type_synonym UTF32 = "32 word"
type_synonym BYTE = "8 word"

text \<open>
  A read or a store outside the block of memory it is aimed at is undefined in C. In the
  model it ends the run with the error \<open>OutOfBounds\<close>. An element at \<open>index\<close> lies in a
  block of \<open>elements\<close> elements when \<open>in_block index elements\<close>.
\<close>

datatype error = OutOfBounds

definition in_block :: "int \<Rightarrow> int \<Rightarrow> bool" where
  "in_block index elements \<longleftrightarrow> 0 \<le> index \<and> index < elements"

section \<open>The font face as the program sees it\<close>

text \<open>
  The FreeType face is an external collaborator. The program reads from it
  \<^item> \<^verbatim>\<open>face->size->metrics.height\<close> and \<^verbatim>\<open>face->bbox.yMax\<close>, and
  \<^item> after \<^verbatim>\<open>FT_Get_Char_Index\<close> and \<^verbatim>\<open>FT_Load_Glyph\<close> for a character code, the glyph slot
    \<^verbatim>\<open>face->glyph\<close>: its metrics and, once rendered, its bitmap.
  The record \<open>Face\<close> holds the two face fields and, as the function \<open>glyph\<close>, the contents of
  the glyph slot after loading each character code. Metrics are in 64ths of a pixel, as
  FreeType gives them. The bitmap buffer is the memory behind \<^verbatim>\<open>bitmap.buffer\<close>, addressed by
  the offset from that pointer.
\<close>

record Glyph =
  metrics_width :: int
  metrics_horiBearingY :: int
  metrics_horiAdvance :: int
  bitmap_rows :: int
  bitmap_width :: int
  bitmap_pitch :: int
  bitmap_buffer :: "int \<Rightarrow> BYTE"

record Face =
  size_metrics_height :: int
  bbox_yMax :: int
  glyph :: "int \<Rightarrow> Glyph"

definition face_get_line_spacing :: "Face \<Rightarrow> int" where
  "face_get_line_spacing face = size_metrics_height face sdiv 64"

text \<open>\<^verbatim>\<open>face_get_char_extent\<close> writes \<^verbatim>\<open>*x\<close> and \<^verbatim>\<open>*y\<close>; the model returns the pair \<open>(x, y)\<close>.\<close>

definition face_get_char_extent :: "Face \<Rightarrow> int \<Rightarrow> int \<times> int" where
  "face_get_char_extent face c =
     (metrics_horiAdvance (glyph face c) sdiv 64, face_get_line_spacing face)"

text \<open>
  A \<^verbatim>\<open>UTF32\<close> string is the list of the words stored from the pointer on. The loop
  \<^verbatim>\<open>while (*s)\<close> stops at the first zero word; the end of the list stands for the terminator
  of a string whose terminator is not listed. The character passed to
  \<^verbatim>\<open>face_get_char_extent\<close> is the \<^verbatim>\<open>UTF32\<close> value converted to \<^verbatim>\<open>int\<close>.
\<close>

fun face_get_string_extent_loop :: "Face \<Rightarrow> UTF32 list \<Rightarrow> int \<Rightarrow> int \<Rightarrow> int \<times> int" where
  "face_get_string_extent_loop face [] x y_extent = (x, y_extent)"
| "face_get_string_extent_loop face (c # s) x y_extent =
     (if c = 0 then (x, y_extent)
      else (case face_get_char_extent face (sint c) of
              (x_extent, y_extent') \<Rightarrow>
                face_get_string_extent_loop face s (x + x_extent) y_extent'))"

definition face_get_string_extent :: "Face \<Rightarrow> UTF32 list \<Rightarrow> int \<times> int" where
  "face_get_string_extent face s = face_get_string_extent_loop face s 0 0"

definition utf32_space :: "UTF32 list" where
  "utf32_space = [32, 0]"

section \<open>The line breaker\<close>

record WordGlyphs =
  word32 :: "UTF32 list"
  x_extent :: int
  y_extent :: int

record GlyphsLine =
  word32 :: "UTF32 list list"
  y_position :: int
  word_count :: int

record GlyphsBoundary =
  init_x :: int
  init_y :: int
  width :: int
  height :: int

text \<open>
  The local variables of \<^verbatim>\<open>compute_glyph_lines\<close> that the loop changes. The two C arrays are
  lists holding the entries written so far: \<open>words_in_curr_line\<close> the entries
  \<open>0 .. curr_line_word_count - 1\<close> and \<open>glyph_lines\<close> the entries \<open>0 .. line_count - 1\<close>; a
  store at the index of the counter appends. The counters are kept as the code keeps them.

  The blocks behind the arrays have the sizes the code allocates. The block of \<open>glyph_lines\<close>
  has \<open>word_count\<close> elements during the whole run. The block of \<open>words_in_curr_line\<close> has
  \<open>word_count\<close> elements at first and \<open>remaining_word_count\<close> elements after each
  \<^verbatim>\<open>malloc\<close> for a new line; \<open>words_capacity\<close> is the size of the block in use.
\<close>

record LineState =
  curr_x :: int
  curr_y :: int
  words_in_curr_line :: "UTF32 list list"
  words_capacity :: int
  curr_line_word_count :: int
  displayable_word_count :: int
  glyph_lines :: "GlyphsLine list"
  line_count :: int
  height_is_overflowed :: bool

text \<open>
  The block of the loop body that closes the current line and starts the next one. The
  store is at \<open>glyph_lines[line_count]\<close>, in a block of \<open>total_word_count\<close> elements (the
  argument \<^verbatim>\<open>word_count\<close> of the C function).
\<close>

definition close_line :: "int \<Rightarrow> int \<Rightarrow> GlyphsBoundary \<Rightarrow> LineState \<Rightarrow> error + LineState" where
  "close_line total_word_count line_spacing glyphs_boundary s =
     (if in_block (line_count s) total_word_count
      then
        let displayable = displayable_word_count s + curr_line_word_count s;
            remaining_word_count = total_word_count - displayable
        in Inr (s\<lparr>glyph_lines := glyph_lines s @
                     [\<lparr>GlyphsLine.word32 = words_in_curr_line s,
                       y_position = curr_y s,
                       word_count = curr_line_word_count s\<rparr>],
                   displayable_word_count := displayable,
                   curr_line_word_count := 0,
                   line_count := line_count s + 1,
                   curr_x := init_x glyphs_boundary,
                   curr_y := curr_y s + line_spacing,
                   words_in_curr_line := [],
                   words_capacity := remaining_word_count\<rparr>)
      else Inl OutOfBounds)"

text \<open>
  The last three statements of the loop body: the word is stored in the current line, at
  \<open>words_in_curr_line[curr_line_word_count]\<close>.
\<close>

definition place_word :: "WordGlyphs \<Rightarrow> int \<Rightarrow> LineState \<Rightarrow> error + LineState" where
  "place_word curr_word_glyps curr_word_x_advance s =
     (if in_block (curr_line_word_count s) (words_capacity s)
      then
        Inr (s\<lparr>words_in_curr_line :=
                   words_in_curr_line s @ [WordGlyphs.word32 curr_word_glyps],
                 curr_line_word_count := curr_line_word_count s + 1,
                 curr_x := curr_x s + curr_word_x_advance\<rparr>)
      else Inl OutOfBounds)"

text \<open>
  The \<^verbatim>\<open>for\<close> loop over the words, as a recursion over the words not yet visited. The
  \<^verbatim>\<open>break\<close> on height overflow ends the recursion with the flag set.
\<close>

fun glyph_lines_loop ::
  "int \<Rightarrow> int \<Rightarrow> int \<Rightarrow> GlyphsBoundary \<Rightarrow> WordGlyphs list \<Rightarrow> LineState \<Rightarrow> error + LineState" where
  "glyph_lines_loop total_word_count space_x line_spacing glyphs_boundary [] s = Inr s"
| "glyph_lines_loop total_word_count space_x line_spacing glyphs_boundary
     (curr_word_glyps # rest) s =
     (let curr_word_x_extent = x_extent curr_word_glyps;
          curr_word_x_advance = curr_word_x_extent + space_x
      in if curr_y s + line_spacing \<ge> init_y glyphs_boundary + height glyphs_boundary
         then Inr (s\<lparr>height_is_overflowed := True\<rparr>)
         else
           let is_end_of_line = (curr_x s + curr_word_x_advance > width glyphs_boundary)
           in case (if is_end_of_line \<and> curr_line_word_count s > 0
                    then close_line total_word_count line_spacing glyphs_boundary s
                    else Inr s) of
                Inl e \<Rightarrow> Inl e
              | Inr s' \<Rightarrow>
                  (case place_word curr_word_glyps curr_word_x_advance s' of
                     Inl e \<Rightarrow> Inl e
                   | Inr s'' \<Rightarrow>
                       glyph_lines_loop total_word_count space_x line_spacing glyphs_boundary
                         rest s''))"

definition initial_line_state :: "int \<Rightarrow> GlyphsBoundary \<Rightarrow> LineState" where
  "initial_line_state total_word_count glyphs_boundary =
     \<lparr>curr_x = init_x glyphs_boundary,
      curr_y = init_y glyphs_boundary,
      words_in_curr_line = [],
      words_capacity = total_word_count,
      curr_line_word_count = 0,
      displayable_word_count = 0,
      glyph_lines = [],
      line_count = 0,
      height_is_overflowed = False\<rparr>"

text \<open>
  The code after the loop: the last line is written unless the height overflowed. The store
  is at \<open>glyph_lines[line_count]\<close>, in the block of \<open>total_word_count\<close> elements.
\<close>

definition flush_last_line :: "int \<Rightarrow> LineState \<Rightarrow> error + LineState" where
  "flush_last_line total_word_count s =
     (if \<not> height_is_overflowed s
      then
        (if in_block (line_count s) total_word_count
         then Inr (s\<lparr>glyph_lines := glyph_lines s @
                      [\<lparr>GlyphsLine.word32 = words_in_curr_line s,
                        y_position = curr_y s,
                        word_count = curr_line_word_count s\<rparr>],
                    line_count := line_count s + 1\<rparr>)
         else Inl OutOfBounds)
      else Inr s)"

text \<open>
  \<^verbatim>\<open>compute_glyph_lines\<close> returns the array of lines and writes \<^verbatim>\<open>*out_line_count\<close>; the model
  returns both. The argument \<^verbatim>\<open>word_count\<close> is the length of the list of words. The two
  checked allocations are the parameters \<open>words_alloc\<close> and \<open>lines_alloc\<close> (whether
  \<^verbatim>\<open>malloc\<close> returned a block): when one fails the function returns \<^verbatim>\<open>NULL\<close>, here \<open>None\<close>.
  The later, unchecked allocations are taken to succeed. A run that stores outside a block
  is \<open>Some (Inl OutOfBounds)\<close>; a run that returns the lines is \<open>Some (Inr (lines, count))\<close>.
  The final \<^verbatim>\<open>realloc\<close> keeps the first \<open>line_count\<close> entries of the array.
\<close>

definition compute_glyph_lines ::
  "bool \<Rightarrow> bool \<Rightarrow> Face \<Rightarrow> GlyphsBoundary \<Rightarrow> WordGlyphs list \<Rightarrow>
     (error + GlyphsLine list \<times> int) option" where
  "compute_glyph_lines words_alloc lines_alloc face glyphs_boundary word_glyps =
     (let total_word_count = int (length word_glyps);
          space_x = fst (face_get_string_extent face utf32_space);
          line_spacing = face_get_line_spacing face
      in if \<not> words_alloc then None
         else if \<not> lines_alloc then None
         else
           (case glyph_lines_loop total_word_count space_x line_spacing glyphs_boundary
                   word_glyps (initial_line_state total_word_count glyphs_boundary) of
              Inl e \<Rightarrow> Some (Inl e)
            | Inr s1 \<Rightarrow>
                (case flush_last_line total_word_count s1 of
                   Inl e \<Rightarrow> Some (Inl e)
                 | Inr s \<Rightarrow>
                     Some (Inr (take (nat (line_count s)) (glyph_lines s), line_count s)))))"

text \<open>
  The body of the loop of \<^verbatim>\<open>main\<close> that fills the array of words: the extents stored with a
  word are those \<^verbatim>\<open>face_get_string_extent\<close> measures.
\<close>

definition measure_word :: "Face \<Rightarrow> UTF32 list \<Rightarrow> WordGlyphs" where
  "measure_word face w32 =
     (case face_get_string_extent face w32 of
        (x_extent', y_extent') \<Rightarrow>
          \<lparr>WordGlyphs.word32 = w32, x_extent = x_extent', y_extent = y_extent'\<rparr>)"

subsection \<open>Invariants of the loop\<close>

text \<open>
  The words stored so far, in the closed lines and in the line in progress, in the order of
  the stores.
\<close>

definition placed :: "LineState \<Rightarrow> UTF32 list list" where
  "placed s = concat (map GlyphsLine.word32 (glyph_lines s)) @ words_in_curr_line s"

text \<open>The counters agree with the arrays they count.\<close>

definition counters_ok :: "LineState \<Rightarrow> bool" where
  "counters_ok s \<longleftrightarrow>
     curr_line_word_count s = int (length (words_in_curr_line s)) \<and>
     line_count s = int (length (glyph_lines s)) \<and>
     (\<forall>l \<in> set (glyph_lines s). word_count l = int (length (GlyphsLine.word32 l)))"

text \<open>The closed lines and the current line lie one line spacing apart, from \<open>y0\<close> on.\<close>

definition y_ok :: "int \<Rightarrow> int \<Rightarrow> LineState \<Rightarrow> bool" where
  "y_ok y0 line_spacing s \<longleftrightarrow>
     curr_y s = y0 + int (length (glyph_lines s)) * line_spacing \<and>
     (\<forall>i < length (glyph_lines s).
        y_position (glyph_lines s ! i) = y0 + int i * line_spacing)"

text \<open>Every closed line ends above the bottom of the boundary.\<close>

definition lines_fit :: "int \<Rightarrow> GlyphsBoundary \<Rightarrow> LineState \<Rightarrow> bool" where
  "lines_fit line_spacing glyphs_boundary s \<longleftrightarrow>
     (\<forall>l \<in> set (glyph_lines s).
        y_position l + line_spacing < init_y glyphs_boundary + height glyphs_boundary)"

text \<open>
  The stores stay inside the blocks. With \<open>k\<close> words still to visit, the words counted as
  displayable, those of the line in progress and those to visit make up the input; every
  closed line took at least one word; the block of the line in progress has room for all
  the words not yet counted as displayable; and the line in progress is empty only before
  the first word.
\<close>

definition capacity_ok :: "int \<Rightarrow> nat \<Rightarrow> LineState \<Rightarrow> bool" where
  "capacity_ok total_word_count k s \<longleftrightarrow>
     0 \<le> curr_line_word_count s \<and> 0 \<le> line_count s \<and>
     displayable_word_count s + curr_line_word_count s + int k = total_word_count \<and>
     line_count s \<le> displayable_word_count s \<and>
     words_capacity s = total_word_count - displayable_word_count s \<and>
     (curr_line_word_count s = 0 \<longrightarrow> int k = total_word_count)"

text \<open>The flag is set only where the next line would reach the bottom of the boundary.\<close>

definition overflow_ok :: "int \<Rightarrow> GlyphsBoundary \<Rightarrow> LineState \<Rightarrow> bool" where
  "overflow_ok line_spacing glyphs_boundary s \<longleftrightarrow>
     (height_is_overflowed s \<longrightarrow>
        curr_y s + line_spacing \<ge> init_y glyphs_boundary + height glyphs_boundary)"

section \<open>The UTF-8 decoder\<close>

text \<open>
  The input of the decoder is a pointer into a byte buffer. The buffer is the list of its
  bytes (for a null-terminated string, the terminator is the last element) and the pointer is
  the offset from the start of the buffer, an integer since the code moves it by a signed
  amount. A read at an offset outside the buffer is undefined in C; the model makes it the
  error \<open>OutOfBounds\<close>.
\<close>

definition read_utf8 :: "UTF8 list \<Rightarrow> int \<Rightarrow> error + UTF8" where
  "read_utf8 buf p =
     (if 0 \<le> p \<and> p < int (length buf) then Inr (buf ! nat p) else Inl OutOfBounds)"

definition next_utf8_glyph_length :: "UTF8 list \<Rightarrow> int \<Rightarrow> error + int" where
  "next_utf8_glyph_length buf word =
     (case read_utf8 buf word of
        Inl e \<Rightarrow> Inl e
      | Inr b \<Rightarrow>
          Inr (if b AND 0x80 = 0 then 1
               else if b AND 0xE0 = 0xC0 then 2
               else if b AND 0xF0 = 0xE0 then 3
               else if b AND 0xF8 = 0xF0 then 4
               else - 1))"

text \<open>
  The first loop of \<^verbatim>\<open>utf8_to_utf32\<close> counts the glyphs. Nothing bounds the number of its
  iterations, so it is a partial function: \<open>None\<close> is the loop that never ends,
  \<open>Some (Inl e)\<close> the run that reads outside the buffer, \<open>Some (Inr n)\<close> the count.
\<close>

partial_function (option) utf8_length_loop ::
  "UTF8 list \<Rightarrow> int \<Rightarrow> int \<Rightarrow> (error + int) option" where
  "utf8_length_loop buf utf8_word_ptr word_length =
     (case read_utf8 buf utf8_word_ptr of
        Inl e \<Rightarrow> Some (Inl e)
      | Inr b \<Rightarrow>
          if b = 0 then Some (Inr word_length)
          else (case next_utf8_glyph_length buf utf8_word_ptr of
                  Inl e \<Rightarrow> Some (Inl e)
                | Inr curr_glyph_length \<Rightarrow>
                    utf8_length_loop buf (utf8_word_ptr + curr_glyph_length)
                      (word_length + 1)))"

text \<open>
  The value stored for one glyph in the second loop. For the lengths 2, 3 and 4 the
  continuation bytes are read behind the pointer. For any other length (the \<open>- 1\<close> of an
  invalid leading byte) no branch stores anything and the element keeps what the fresh
  block held, the argument \<open>old\<close>.
\<close>

definition utf8_glyph_value :: "UTF8 list \<Rightarrow> int \<Rightarrow> int \<Rightarrow> UTF32 \<Rightarrow> error + UTF32" where
  "utf8_glyph_value buf p curr_glyph_length old =
     (if curr_glyph_length = 1 then
        (case read_utf8 buf p of Inl e \<Rightarrow> Inl e | Inr b0 \<Rightarrow> Inr (ucast b0))
      else if curr_glyph_length = 2 then
        (case read_utf8 buf p of Inl e \<Rightarrow> Inl e | Inr b0 \<Rightarrow>
        (case read_utf8 buf (p + 1) of Inl e \<Rightarrow> Inl e | Inr b1 \<Rightarrow>
           Inr ((push_bit 6 (ucast (b0 AND 0x1F))) OR (ucast (b1 AND 0x3F)))))
      else if curr_glyph_length = 3 then
        (case read_utf8 buf p of Inl e \<Rightarrow> Inl e | Inr b0 \<Rightarrow>
        (case read_utf8 buf (p + 1) of Inl e \<Rightarrow> Inl e | Inr b1 \<Rightarrow>
        (case read_utf8 buf (p + 2) of Inl e \<Rightarrow> Inl e | Inr b2 \<Rightarrow>
           Inr ((push_bit 12 (ucast (b0 AND 0x0F))) OR (push_bit 6 (ucast (b1 AND 0x3F)))
                OR (ucast (b2 AND 0x3F))))))
      else if curr_glyph_length = 4 then
        (case read_utf8 buf p of Inl e \<Rightarrow> Inl e | Inr b0 \<Rightarrow>
        (case read_utf8 buf (p + 1) of Inl e \<Rightarrow> Inl e | Inr b1 \<Rightarrow>
        (case read_utf8 buf (p + 2) of Inl e \<Rightarrow> Inl e | Inr b2 \<Rightarrow>
        (case read_utf8 buf (p + 3) of Inl e \<Rightarrow> Inl e | Inr b3 \<Rightarrow>
           Inr ((push_bit 18 (ucast (b0 AND 0x07))) OR (push_bit 12 (ucast (b1 AND 0x3F)))
                OR (push_bit 6 (ucast (b2 AND 0x3F))) OR (ucast (b3 AND 0x3F)))))))
      else Inr old)"

text \<open>
  The second loop converts. The output block has \<open>capacity\<close> elements
  (\<open>word_length + 1\<close>); \<open>out\<close> is the list of the elements the output pointer has passed, so
  the pointer is at offset \<open>length out\<close>, and a store at an offset outside the block is the
  error. The branches for the lengths 1 to 4 store; for any other length the pointer passes
  the element without a store, and the element is what the block held when \<^verbatim>\<open>malloc\<close>
  returned it, \<open>fresh\<close> at that offset. When the loop ends the terminator is stored.
\<close>

partial_function (option) utf8_convert_loop ::
  "(nat \<Rightarrow> UTF32) \<Rightarrow> UTF8 list \<Rightarrow> int \<Rightarrow> int \<Rightarrow> UTF32 list \<Rightarrow> (error + UTF32 list) option" where
  "utf8_convert_loop fresh buf capacity utf8_word_ptr out =
     (case read_utf8 buf utf8_word_ptr of
        Inl e \<Rightarrow> Some (Inl e)
      | Inr b \<Rightarrow>
          if b = 0 then
            (if int (length out) < capacity then Some (Inr (out @ [0]))
             else Some (Inl OutOfBounds))
          else (case next_utf8_glyph_length buf utf8_word_ptr of
                  Inl e \<Rightarrow> Some (Inl e)
                | Inr curr_glyph_length \<Rightarrow>
                    if 1 \<le> curr_glyph_length \<and> curr_glyph_length \<le> 4 \<and>
                       \<not> int (length out) < capacity
                    then Some (Inl OutOfBounds)
                    else
                      (case utf8_glyph_value buf utf8_word_ptr curr_glyph_length
                              (fresh (length out)) of
                         Inl e \<Rightarrow> Some (Inl e)
                       | Inr v \<Rightarrow>
                           utf8_convert_loop fresh buf capacity
                             (utf8_word_ptr + curr_glyph_length) (out @ [v]))))"

definition utf8_to_utf32 :: "(nat \<Rightarrow> UTF32) \<Rightarrow> UTF8 list \<Rightarrow> (error + UTF32 list) option" where
  "utf8_to_utf32 fresh utf8_word =
     (case utf8_length_loop utf8_word 0 0 of
        None \<Rightarrow> None
      | Some (Inl e) \<Rightarrow> Some (Inl e)
      | Some (Inr word_length) \<Rightarrow>
          utf8_convert_loop fresh utf8_word (word_length + 1) 0 [])"

text \<open>
  The four-byte UTF-8 encoding of a scalar value, as the standard defines it (the program has
  no encoder): \<open>11110xxx 10xxxxxx 10xxxxxx 10xxxxxx\<close>, followed here by the terminator.
\<close>

definition utf8_encode4 :: "UTF32 \<Rightarrow> UTF8 list" where
  "utf8_encode4 c =
     [0xF0 OR ucast (drop_bit 18 c),
      0x80 OR ucast (drop_bit 12 c AND 0x3F),
      0x80 OR ucast (drop_bit 6 c AND 0x3F),
      0x80 OR ucast (c AND 0x3F),
      0]"

section \<open>The framebuffer\<close>

text \<open>
  The struct of \<^verbatim>\<open>framebuffer.c\<close>. The mapped memory \<^verbatim>\<open>fb_data\<close> is the function from the byte
  offset to the byte stored there; how much of it the device maps is not part of the model.
\<close>

record FrameBuffer =
  fd :: int
  w :: int
  h :: int
  fb_data_size :: int
  fb_data :: "int \<Rightarrow> BYTE"
  fbdev :: string
  fb_bytes :: int
  line_length :: int
  stride :: int
  slop :: int

text \<open>
  The branch of \<^verbatim>\<open>framebuffer_init\<close> taken when the device opens. The descriptor, the values
  the two \<^verbatim>\<open>ioctl\<close> calls report and the memory \<^verbatim>\<open>mmap\<close> returns are arguments.
\<close>

definition framebuffer_init ::
  "FrameBuffer \<Rightarrow> int \<Rightarrow> int \<Rightarrow> int \<Rightarrow> int \<Rightarrow> int \<Rightarrow> (int \<Rightarrow> BYTE) \<Rightarrow> FrameBuffer" where
  "framebuffer_init self opened_fd xres yres bits_per_pixel finfo_line_length mapped =
     (let fb_bpp = bits_per_pixel;
          bytes = fb_bpp sdiv 8;
          stride' = max finfo_line_length (xres * bytes)
      in self\<lparr>fd := opened_fd,
              line_length := finfo_line_length,
              w := xres,
              h := yres,
              fb_bytes := bytes,
              fb_data_size := xres * yres * bytes,
              stride := stride',
              slop := stride' - xres * bytes,
              fb_data := mapped\<rparr>)"

definition framebuffer_set_pixel ::
  "FrameBuffer \<Rightarrow> int \<Rightarrow> int \<Rightarrow> BYTE \<Rightarrow> BYTE \<Rightarrow> BYTE \<Rightarrow> FrameBuffer" where
  "framebuffer_set_pixel self x y r g b =
     (if x > 0 \<and> x < w self \<and> y > 0 \<and> y < h self
      then
        let index32 = (y * w self + x) * fb_bytes self + y * slop self
        in self\<lparr>fb_data := (fb_data self)
                  (index32 := b, index32 + 1 := g, index32 + 2 := r, index32 + 3 := 0)\<rparr>
      else self)"

text \<open>\<^verbatim>\<open>framebuffer_get_pixel\<close> writes \<^verbatim>\<open>*r\<close>, \<^verbatim>\<open>*g\<close> and \<^verbatim>\<open>*b\<close>; the model returns \<open>(r, g, b)\<close>.\<close>

definition framebuffer_get_pixel :: "FrameBuffer \<Rightarrow> int \<Rightarrow> int \<Rightarrow> BYTE \<times> BYTE \<times> BYTE" where
  "framebuffer_get_pixel self x y =
     (if x > 0 \<and> x < w self \<and> y > 0 \<and> y < h self
      then
        let index32 = (y * w self + x) * fb_bytes self + y * slop self
        in (fb_data self (index32 + 2), fb_data self (index32 + 1), fb_data self index32)
      else (0, 0, 0))"

text \<open>
  The bytes of the pixel \<open>(x, y)\<close> in the mapped memory: \<open>fb_bytes\<close> bytes from the offset that
  \<^verbatim>\<open>framebuffer_set_pixel\<close> and \<^verbatim>\<open>framebuffer_get_pixel\<close> both compute. The pixel surface is
  the set of the pixels with \<open>0 \<le> x < w\<close> and \<open>0 \<le> y < h\<close>.
\<close>

definition pixel_offset :: "FrameBuffer \<Rightarrow> int \<Rightarrow> int \<Rightarrow> int" where
  "pixel_offset self x y = (y * w self + x) * fb_bytes self + y * slop self"

definition pixel_bytes :: "FrameBuffer \<Rightarrow> int \<Rightarrow> int \<Rightarrow> BYTE list" where
  "pixel_bytes self x y =
     map (\<lambda>k. fb_data self (pixel_offset self x y + k)) [0 .. fb_bytes self - 1]"

section \<open>The glyph compositor\<close>

text \<open>
  The two nested loops of \<^verbatim>\<open>face_draw_char_on_fb\<close> over the rows \<open>i\<close> and the columns \<open>j\<close> of
  the glyph bitmap. The pixel sink is the argument \<open>set_pixel\<close>, so that what is proved about
  the calls holds for any sink; the program's sink is \<^verbatim>\<open>framebuffer_set_pixel\<close>. The counts
  \<^verbatim>\<open>bitmap.rows\<close> and \<^verbatim>\<open>bitmap.width\<close> are the values after the cast to \<^verbatim>\<open>int\<close>.
\<close>

function draw_columns ::
  "('fb \<Rightarrow> int \<Rightarrow> int \<Rightarrow> BYTE \<Rightarrow> BYTE \<Rightarrow> BYTE \<Rightarrow> 'fb) \<Rightarrow> Glyph \<Rightarrow> int \<Rightarrow> int \<Rightarrow> int \<Rightarrow> int \<Rightarrow>
     int \<Rightarrow> 'fb \<Rightarrow> 'fb" where
  "draw_columns set_pixel g x x_off row_offset i j fb =
     (if j < bitmap_width g
      then
        let p = bitmap_buffer g (i * bitmap_pitch g + j);
            fb' = (if p \<noteq> 0 then set_pixel fb (x + j + x_off) row_offset p p p else fb)
        in draw_columns set_pixel g x x_off row_offset i (j + 1) fb'
      else fb)"
  by pat_completeness auto
termination
  by (relation "measure (\<lambda>(set_pixel, g, x, x_off, row_offset, i, j, fb). nat (bitmap_width g - j))")
     auto

function draw_rows ::
  "('fb \<Rightarrow> int \<Rightarrow> int \<Rightarrow> BYTE \<Rightarrow> BYTE \<Rightarrow> BYTE \<Rightarrow> 'fb) \<Rightarrow> Glyph \<Rightarrow> int \<Rightarrow> int \<Rightarrow> int \<Rightarrow> int \<Rightarrow>
     int \<Rightarrow> 'fb \<Rightarrow> 'fb" where
  "draw_rows set_pixel g x y x_off y_off i fb =
     (if i < bitmap_rows g
      then
        let row_offset = y + i + y_off
        in draw_rows set_pixel g x y x_off y_off (i + 1)
             (draw_columns set_pixel g x x_off row_offset i 0 fb)
      else fb)"
  by pat_completeness auto
termination
  by (relation "measure (\<lambda>(set_pixel, g, x, y, x_off, y_off, i, fb). nat (bitmap_rows g - i))")
     auto

text \<open>
  \<^verbatim>\<open>face_draw_char_on_fb\<close> changes the sink and \<^verbatim>\<open>*x\<close>; the model returns the new sink and the
  new \<open>x\<close>.
\<close>

definition face_draw_char_on_sink ::
  "('fb \<Rightarrow> int \<Rightarrow> int \<Rightarrow> BYTE \<Rightarrow> BYTE \<Rightarrow> BYTE \<Rightarrow> 'fb) \<Rightarrow> Face \<Rightarrow> 'fb \<Rightarrow> int \<Rightarrow> int \<Rightarrow> int \<Rightarrow>
     'fb \<times> int" where
  "face_draw_char_on_sink set_pixel face fb c x y =
     (let g = glyph face c;
          bbox_ymax = bbox_yMax face sdiv 64;
          y_off = bbox_ymax - metrics_horiBearingY g sdiv 64;
          glyph_width = metrics_width g sdiv 64;
          advance = metrics_horiAdvance g sdiv 64;
          x_off = (advance - glyph_width) sdiv 2
      in (draw_rows set_pixel g x y x_off y_off 0 fb, x + advance))"

definition face_draw_char_on_fb :: "Face \<Rightarrow> FrameBuffer \<Rightarrow> int \<Rightarrow> int \<Rightarrow> int \<Rightarrow> FrameBuffer \<times> int" where
  "face_draw_char_on_fb face fb c x y =
     face_draw_char_on_sink framebuffer_set_pixel face fb c x y"

text \<open>
  What the specification says the compositor does, to compare with the loops: the cells of
  the bitmap with a nonzero coverage byte, row by row, and for each of them one call of the
  sink at \<open>(penX + j + xOffset, penY + i + yOffset)\<close> with the coverage byte on the three
  channels.
\<close>

definition coverage :: "Glyph \<Rightarrow> int \<Rightarrow> int \<Rightarrow> BYTE" where
  "coverage g i j = bitmap_buffer g (i * bitmap_pitch g + j)"

definition inked_cells :: "Glyph \<Rightarrow> (int \<times> int) list" where
  "inked_cells g =
     filter (\<lambda>(i, j). coverage g i j \<noteq> 0)
       (List.product [0 .. bitmap_rows g - 1] [0 .. bitmap_width g - 1])"

definition write_cell ::
  "('fb \<Rightarrow> int \<Rightarrow> int \<Rightarrow> BYTE \<Rightarrow> BYTE \<Rightarrow> BYTE \<Rightarrow> 'fb) \<Rightarrow> Glyph \<Rightarrow> int \<Rightarrow> int \<Rightarrow> int \<Rightarrow> int \<Rightarrow>
     int \<times> int \<Rightarrow> 'fb \<Rightarrow> 'fb" where
  "write_cell set_pixel g penX penY xOffset yOffset cell fb =
     (case cell of (i, j) \<Rightarrow>
        set_pixel fb (penX + j + xOffset) (penY + i + yOffset)
          (coverage g i j) (coverage g i j) (coverage g i j))"

section \<open>The line aligner\<close>

text \<open>
  The loop of \<^verbatim>\<open>compute_init_x_to_center_line\<close> over the words of the line. The line stores
  its words as an array and a count; a read at an index outside the array is undefined in C
  and \<open>None\<close> here.
\<close>

function line_width_loop :: "Face \<Rightarrow> GlyphsLine \<Rightarrow> int \<Rightarrow> int \<Rightarrow> int option" where
  "line_width_loop face glyph_line curr_glyph_idx line_width =
     (if curr_glyph_idx < word_count glyph_line
      then
        (if 0 \<le> curr_glyph_idx \<and> curr_glyph_idx < int (length (GlyphsLine.word32 glyph_line))
         then
           (case face_get_string_extent face (GlyphsLine.word32 glyph_line ! nat curr_glyph_idx) of
              (word_x, word_y) \<Rightarrow>
                line_width_loop face glyph_line (curr_glyph_idx + 1) (line_width + word_x))
         else None)
      else Some line_width)"
  by pat_completeness auto
termination
  by (relation "measure (\<lambda>(face, glyph_line, curr_glyph_idx, line_width).
                   nat (word_count glyph_line - curr_glyph_idx))")
     auto

definition compute_init_x_to_center_line :: "Face \<Rightarrow> GlyphsLine \<Rightarrow> GlyphsBoundary \<Rightarrow> int option" where
  "compute_init_x_to_center_line face glyph_line glyphs_boundary =
     (let space_x = fst (face_get_string_extent face utf32_space);
          word_count' = word_count glyph_line
      in case line_width_loop face glyph_line 0 ((word_count' - 1) * space_x) of
           None \<Rightarrow> None
         | Some line_width \<Rightarrow>
             let middle_x = width glyphs_boundary sdiv 2;
                 middle_line = line_width sdiv 2
             in Some ((middle_x - middle_line) + init_x glyphs_boundary))"

section \<open>Concrete data\<close>

text \<open>
  A face whose every glyph advances the pen by 10 pixels, with a line spacing of 20 pixels
  and a bounding box 15 pixels above the baseline. The glyph is 6 pixels wide, rises 9 pixels
  above the baseline and has a bitmap of 2 rows and 2 columns stored with a pitch of 4; the
  bytes at the offsets 2, 3, 6 and 7 are padding.
\<close>

definition example_glyph :: Glyph where
  "example_glyph =
     \<lparr>metrics_width = 384,
      metrics_horiBearingY = 576,
      metrics_horiAdvance = 640,
      bitmap_rows = 2,
      bitmap_width = 2,
      bitmap_pitch = 4,
      bitmap_buffer = (\<lambda>k. if k = 0 then 255 else if k = 5 then 128
                            else if k = 2 \<or> k = 6 then 77 else 0)\<rparr>"

definition example_face :: Face where
  "example_face =
     \<lparr>size_metrics_height = 1280, bbox_yMax = 960, glyph = (\<lambda>c. example_glyph)\<rparr>"

text \<open>Words of four and of six letters: 40 and 60 pixels wide in the example face.\<close>

definition word4 :: "UTF32 list" where
  "word4 = [0x61, 0x62, 0x63, 0x64, 0]"

definition word6 :: "UTF32 list" where
  "word6 = [0x61, 0x62, 0x63, 0x64, 0x65, 0x66, 0]"

text \<open>A sink that records the calls made to it.\<close>

definition record_call ::
  "(int \<times> int \<times> BYTE \<times> BYTE \<times> BYTE) list \<Rightarrow> int \<Rightarrow> int \<Rightarrow> BYTE \<Rightarrow> BYTE \<Rightarrow> BYTE \<Rightarrow>
     (int \<times> int \<times> BYTE \<times> BYTE \<times> BYTE) list" where
  "record_call calls x y r g b = calls @ [(x, y, r, g, b)]"

text \<open>
  Two framebuffers of 4 by 4 pixels whose memory holds \<open>0xFF\<close> everywhere: one with 3 bytes
  per pixel, one with 4.
\<close>

definition example_fb24 :: FrameBuffer where
  "example_fb24 =
     \<lparr>fd = 3, w = 4, h = 4, fb_data_size = 48, fb_data = (\<lambda>k. 0xFF), fbdev = ''/dev/fb0'',
      fb_bytes = 3, line_length = 12, stride = 12, slop = 0\<rparr>"

definition example_fb32 :: FrameBuffer where
  "example_fb32 =
     \<lparr>fd = 3, w = 4, h = 4, fb_data_size = 64, fb_data = (\<lambda>k. 0xFF), fbdev = ''/dev/fb0'',
      fb_bytes = 4, line_length = 16, stride = 16, slop = 0\<rparr>"

section \<open>Evaluation of the concrete data\<close>

text \<open>
  The equations of the loops defined with a termination proof are applied by hand, since as
  rewrite rules they would unfold without end.
\<close>

declare draw_columns.simps [simp del]
declare draw_rows.simps [simp del]
declare line_width_loop.simps [simp del]

lemma example_space_x: "fst (face_get_string_extent example_face utf32_space) = 10"
  by (simp add: face_get_string_extent_def utf32_space_def face_get_char_extent_def
        example_face_def example_glyph_def signed_divide_int_def)

lemma example_line_spacing: "face_get_line_spacing example_face = 20"
  by (simp add: face_get_line_spacing_def example_face_def signed_divide_int_def)

lemma example_word4:
  "measure_word example_face word4 = \<lparr>WordGlyphs.word32 = word4, x_extent = 40, y_extent = 20\<rparr>"
  by (simp add: measure_word_def face_get_string_extent_def word4_def face_get_char_extent_def
        face_get_line_spacing_def example_face_def example_glyph_def signed_divide_int_def)

lemma example_word6:
  "measure_word example_face word6 = \<lparr>WordGlyphs.word32 = word6, x_extent = 60, y_extent = 20\<rparr>"
  by (simp add: measure_word_def face_get_string_extent_def word6_def face_get_char_extent_def
        face_get_line_spacing_def example_face_def example_glyph_def signed_divide_int_def)

lemmas line_breaker_eval =
  compute_glyph_lines_def example_space_x example_line_spacing example_word4 example_word6
  initial_line_state_def close_line_def place_word_def flush_last_line_def in_block_def Let_def

text \<open>
  Scenario A of the specification: three words of 40 pixels in a boundary 100 pixels wide at
  the origin, with a space of 10 pixels. The first two words share the first line and the
  third starts the second line.
\<close>

lemma scenario_A:
  "compute_glyph_lines True True example_face
     \<lparr>init_x = 0, init_y = 0, width = 100, height = 1000\<rparr>
     [measure_word example_face word4, measure_word example_face word4,
      measure_word example_face word4] =
   Some (Inr ([\<lparr>GlyphsLine.word32 = [word4, word4], y_position = 0, word_count = 2\<rparr>,
               \<lparr>GlyphsLine.word32 = [word4], y_position = 20, word_count = 1\<rparr>], 2))"
  by (simp add: line_breaker_eval)

text \<open>
  With a third word behind it, the word that wrapped below the boundary is dropped together
  with its line: the next pass of the loop finds the height overflowed.
\<close>

lemma scenario_B_three_words:
  "compute_glyph_lines True True example_face
     \<lparr>init_x = 0, init_y = 0, width = 100, height = 30\<rparr>
     [measure_word example_face word6, measure_word example_face word6,
      measure_word example_face word6] =
   Some (Inr ([\<lparr>GlyphsLine.word32 = [word6], y_position = 0, word_count = 1\<rparr>], 1))"
  by (simp add: line_breaker_eval)

section \<open>Properties of the line breaker\<close>

subsection \<open>Invariants of the loop in general\<close>

text \<open>
  A property of the state holds after the loop when it holds before it and the three steps
  of a pass keep it: setting the flag where the height test fails, closing a line where the
  height test passed, and storing a word.
\<close>

lemma glyph_lines_loop_invariant:
  assumes "glyph_lines_loop total_word_count space_x line_spacing glyphs_boundary word_glyps s
             = Inr t"
    and "I s"
    and over: "\<And>s. I s \<Longrightarrow>
                 curr_y s + line_spacing \<ge> init_y glyphs_boundary + height glyphs_boundary \<Longrightarrow>
                 I (s\<lparr>height_is_overflowed := True\<rparr>)"
    and close: "\<And>s s'. I s \<Longrightarrow>
                 curr_y s + line_spacing < init_y glyphs_boundary + height glyphs_boundary \<Longrightarrow>
                 close_line total_word_count line_spacing glyphs_boundary s = Inr s' \<Longrightarrow> I s'"
    and place: "\<And>curr_word_glyps advance s s'. I s \<Longrightarrow>
                 place_word curr_word_glyps advance s = Inr s' \<Longrightarrow> I s'"
  shows "I t"
  using assms(1,2)
proof (induction word_glyps arbitrary: s)
  case Nil
  then show ?case by simp
next
  case (Cons curr_word_glyps rest)
  show ?case
  proof (cases "curr_y s + line_spacing \<ge> init_y glyphs_boundary + height glyphs_boundary")
    case True
    with Cons.prems over [of s] show ?thesis by auto
  next
    case False
    define advance where "advance = x_extent curr_word_glyps + space_x"
    define closing where
      "closing \<longleftrightarrow> curr_x s + advance > width glyphs_boundary \<and> curr_line_word_count s > 0"
    from Cons.prems(1) False obtain s' s'' where
      c: "(if closing then close_line total_word_count line_spacing glyphs_boundary s
           else Inr s) = Inr s'"
      and p: "place_word curr_word_glyps advance s' = Inr s''"
      and l: "glyph_lines_loop total_word_count space_x line_spacing glyphs_boundary rest s''
                = Inr t"
      by (auto simp: Let_def advance_def closing_def split: sum.splits if_splits)
    have "I s'"
    proof (cases closing)
      case True
      with c False close [of s s'] Cons.prems(2) show ?thesis by simp
    next
      case False
      with c Cons.prems(2) show ?thesis by simp
    qed
    then have "I s''"
      using p by (rule place)
    with l show ?thesis
      by (rule Cons.IH)
  qed
qed

subsection \<open>The counters\<close>

lemma counters_ok_close_line:
  "counters_ok s \<Longrightarrow> close_line total_word_count line_spacing glyphs_boundary s = Inr s' \<Longrightarrow>
     counters_ok s'"
  by (auto simp: counters_ok_def close_line_def Let_def split: if_splits)

lemma counters_ok_place_word:
  "counters_ok s \<Longrightarrow> place_word curr_word_glyps advance s = Inr s' \<Longrightarrow> counters_ok s'"
  by (auto simp: counters_ok_def place_word_def split: if_splits)

lemma counters_ok_loop:
  assumes "glyph_lines_loop total_word_count space_x line_spacing glyphs_boundary word_glyps s
             = Inr t"
    and "counters_ok s"
  shows "counters_ok t"
  using assms
proof (rule glyph_lines_loop_invariant)
  show "counters_ok (s\<lparr>height_is_overflowed := True\<rparr>)" if "counters_ok s" for s
    using that by (simp add: counters_ok_def)
qed (erule counters_ok_close_line counters_ok_place_word, assumption)+

lemma counters_ok_flush:
  "counters_ok s \<Longrightarrow> flush_last_line total_word_count s = Inr t \<Longrightarrow> counters_ok t"
  by (auto simp: counters_ok_def flush_last_line_def split: if_splits)

lemma counters_ok_initial: "counters_ok (initial_line_state total_word_count glyphs_boundary)"
  by (simp add: counters_ok_def initial_line_state_def)

text \<open>
  A run of \<open>compute_glyph_lines\<close> that returns lines went through the loop and the code after
  it without a store outside a block, and returns the final state's array, all of it.
\<close>

lemma compute_glyph_lines_result:
  assumes "compute_glyph_lines words_alloc lines_alloc face glyphs_boundary word_glyps =
             Some (Inr (out_lines, n))"
  obtains s1 s where
    "glyph_lines_loop (int (length word_glyps)) (fst (face_get_string_extent face utf32_space))
       (face_get_line_spacing face) glyphs_boundary word_glyps
       (initial_line_state (int (length word_glyps)) glyphs_boundary) = Inr s1"
    and "flush_last_line (int (length word_glyps)) s1 = Inr s"
    and "out_lines = glyph_lines s" and "n = int (length out_lines)" and "counters_ok s"
proof -
  from assms obtain s1 s where
    l: "glyph_lines_loop (int (length word_glyps)) (fst (face_get_string_extent face utf32_space))
         (face_get_line_spacing face) glyphs_boundary word_glyps
         (initial_line_state (int (length word_glyps)) glyphs_boundary) = Inr s1"
    and f: "flush_last_line (int (length word_glyps)) s1 = Inr s"
    and r: "out_lines = take (nat (line_count s)) (glyph_lines s)" "n = line_count s"
    by (auto simp: compute_glyph_lines_def Let_def split: if_splits sum.splits)
  have c: "counters_ok s"
    using counters_ok_flush [OF counters_ok_loop [OF l counters_ok_initial] f] .
  with r have o: "out_lines = glyph_lines s" and m: "n = int (length out_lines)"
    by (simp_all add: counters_ok_def)
  show ?thesis
    by (rule that [OF l f o m c])
qed

subsection \<open>The stores stay inside the blocks\<close>

lemma capacity_ok_loop:
  assumes "capacity_ok total_word_count (length word_glyps) s"
  shows "\<exists>t. glyph_lines_loop total_word_count space_x line_spacing glyphs_boundary word_glyps s
               = Inr t \<and>
             (height_is_overflowed t \<or> height_is_overflowed s \<or> capacity_ok total_word_count 0 t)"
  using assms
proof (induction word_glyps arbitrary: s)
  case Nil
  then show ?case by simp
next
  case (Cons curr_word_glyps rest)
  show ?case
  proof (cases "curr_y s + line_spacing \<ge> init_y glyphs_boundary + height glyphs_boundary")
    case True
    then show ?thesis by simp
  next
    case False
    define advance where "advance = x_extent curr_word_glyps + space_x"
    define closing where
      "closing \<longleftrightarrow> curr_x s + advance > width glyphs_boundary \<and> curr_line_word_count s > 0"
    from Cons.prems obtain s'' where
      s'': "(case (if closing then close_line total_word_count line_spacing glyphs_boundary s
                   else Inr s) of
               Inl e \<Rightarrow> Inl e
             | Inr s' \<Rightarrow> place_word curr_word_glyps advance s') = Inr s''"
      and ok: "capacity_ok total_word_count (length rest) s''"
      and fl: "height_is_overflowed s'' = height_is_overflowed s"
      by (cases closing)
         (auto simp: capacity_ok_def close_line_def place_word_def in_block_def Let_def closing_def)
    from Cons.IH [OF ok] obtain t where
      t: "glyph_lines_loop total_word_count space_x line_spacing glyphs_boundary rest s'' = Inr t"
         "height_is_overflowed t \<or> height_is_overflowed s'' \<or> capacity_ok total_word_count 0 t"
      by blast
    from s'' t(1) False
    have "glyph_lines_loop total_word_count space_x line_spacing glyphs_boundary
            (curr_word_glyps # rest) s = Inr t"
      by (auto simp: Let_def advance_def closing_def split: sum.splits if_splits)
    with t(2) fl show ?thesis
      by simp
  qed
qed

text \<open>
  For a list of at least one word, when both checked allocations succeed, every store is
  inside its block and \<open>compute_glyph_lines\<close> returns lines.
\<close>

lemma compute_glyph_lines_returns:
  assumes "words_alloc" and "lines_alloc" and "word_glyps \<noteq> []"
  shows "\<exists>out_lines n.
           compute_glyph_lines words_alloc lines_alloc face glyphs_boundary word_glyps =
             Some (Inr (out_lines, n))"
proof -
  define total where "total = int (length word_glyps)"
  have cap: "capacity_ok total (length word_glyps) (initial_line_state total glyphs_boundary)"
    by (simp add: capacity_ok_def initial_line_state_def total_def)
  have unset: "\<not> height_is_overflowed (initial_line_state total glyphs_boundary)"
    by (simp add: initial_line_state_def)
  from capacity_ok_loop
         [where space_x = "fst (face_get_string_extent face utf32_space)"
            and line_spacing = "face_get_line_spacing face"
            and glyphs_boundary = glyphs_boundary, OF cap] unset
  obtain t where
    t: "glyph_lines_loop total (fst (face_get_string_extent face utf32_space))
          (face_get_line_spacing face) glyphs_boundary word_glyps
          (initial_line_state total glyphs_boundary) = Inr t"
       "height_is_overflowed t \<or> capacity_ok total 0 t"
    by blast
  have "0 < total"
    using assms(3) by (simp add: total_def)
  with t(2) have "\<exists>s. flush_last_line total t = Inr s"
    by (auto simp: flush_last_line_def capacity_ok_def in_block_def)
  with t(1) assms(1,2) show ?thesis
    by (auto simp: compute_glyph_lines_def Let_def total_def [symmetric])
qed

subsection \<open>The vertical positions\<close>

lemma y_ok_close_line:
  "y_ok y0 line_spacing s \<Longrightarrow>
     close_line total_word_count line_spacing glyphs_boundary s = Inr s' \<Longrightarrow>
     y_ok y0 line_spacing s'"
  by (auto simp: y_ok_def close_line_def Let_def nth_append algebra_simps less_Suc_eq
           split: if_splits)

lemma y_ok_place_word:
  "y_ok y0 line_spacing s \<Longrightarrow> place_word curr_word_glyps advance s = Inr s' \<Longrightarrow>
     y_ok y0 line_spacing s'"
  by (auto simp: y_ok_def place_word_def split: if_splits)

lemma y_ok_loop:
  assumes "glyph_lines_loop total_word_count space_x line_spacing glyphs_boundary word_glyps s
             = Inr t"
    and "y_ok y0 line_spacing s"
  shows "y_ok y0 line_spacing t"
  using assms
proof (rule glyph_lines_loop_invariant)
  show "y_ok y0 line_spacing (s\<lparr>height_is_overflowed := True\<rparr>)" if "y_ok y0 line_spacing s" for s
    using that by (simp add: y_ok_def)
qed (erule y_ok_close_line y_ok_place_word, assumption)+

lemma y_ok_flush:
  assumes "y_ok y0 line_spacing s" and "flush_last_line total_word_count s = Inr t"
    and "i < length (glyph_lines t)"
  shows "y_position (glyph_lines t ! i) = y0 + int i * line_spacing"
  using assms by (auto simp: y_ok_def flush_last_line_def nth_append less_Suc_eq split: if_splits)

lemma y_ok_initial:
  "y_ok (init_y glyphs_boundary) line_spacing (initial_line_state total_word_count glyphs_boundary)"
  by (simp add: y_ok_def initial_line_state_def)

lemma line_y_position_nth:
  assumes "compute_glyph_lines words_alloc lines_alloc face glyphs_boundary word_glyps =
             Some (Inr (out_lines, n))"
    and "i < length out_lines"
  shows "y_position (out_lines ! i) =
           init_y glyphs_boundary + int i * face_get_line_spacing face"
proof -
  from assms(1) obtain s1 s where
    l: "glyph_lines_loop (int (length word_glyps)) (fst (face_get_string_extent face utf32_space))
         (face_get_line_spacing face) glyphs_boundary word_glyps
         (initial_line_state (int (length word_glyps)) glyphs_boundary) = Inr s1"
    and f: "flush_last_line (int (length word_glyps)) s1 = Inr s"
    and r: "out_lines = glyph_lines s"
    by (rule compute_glyph_lines_result)
  have "y_ok (init_y glyphs_boundary) (face_get_line_spacing face) s1"
    using l y_ok_initial by (rule y_ok_loop)
  from y_ok_flush [OF this f] assms(2) show ?thesis
    by (simp add: r)
qed

text \<open>
  Claim C6. The lines that \<open>compute_glyph_lines\<close> returns lie one line spacing apart, starting
  at the top of the boundary: the line at index \<open>i\<close> has the vertical position
  \<open>init_y + i * line_spacing\<close>, consecutive lines differ by exactly the line spacing, and for
  a positive line spacing the positions increase strictly.
\<close>

theorem line_y_positions:
  assumes "compute_glyph_lines words_alloc lines_alloc face glyphs_boundary word_glyps =
             Some (Inr (out_lines, n))"
  shows "(\<forall>i < length out_lines.
            y_position (out_lines ! i) =
              init_y glyphs_boundary + int i * face_get_line_spacing face) \<and>
         (\<forall>i. Suc i < length out_lines \<longrightarrow>
            y_position (out_lines ! Suc i) - y_position (out_lines ! i) =
              face_get_line_spacing face) \<and>
         (0 < face_get_line_spacing face \<longrightarrow> sorted_wrt (<) (map y_position out_lines))"
proof (intro conjI allI impI)
  fix i
  assume "i < length out_lines"
  then show "y_position (out_lines ! i) =
               init_y glyphs_boundary + int i * face_get_line_spacing face"
    by (rule line_y_position_nth [OF assms])
next
  fix i
  assume "Suc i < length out_lines"
  then show "y_position (out_lines ! Suc i) - y_position (out_lines ! i) =
               face_get_line_spacing face"
    by (simp add: line_y_position_nth [OF assms] algebra_simps)
next
  assume pos: "0 < face_get_line_spacing face"
  have "y_position (out_lines ! i) < y_position (out_lines ! j)"
    if "i < j" and "j < length out_lines" for i j
  proof -
    from that have "int i * face_get_line_spacing face < int j * face_get_line_spacing face"
      using pos by (intro mult_strict_right_mono) simp_all
    with that show ?thesis
      by (simp add: line_y_position_nth [OF assms])
  qed
  then show "sorted_wrt (<) (map y_position out_lines)"
    by (simp add: sorted_wrt_iff_nth_less)
qed

theorem line_y_positions_witness:
  "compute_glyph_lines True True example_face
     \<lparr>init_x = 0, init_y = 0, width = 100, height = 1000\<rparr>
     [measure_word example_face word4, measure_word example_face word4,
      measure_word example_face word4] =
   Some (Inr ([\<lparr>GlyphsLine.word32 = [word4, word4], y_position = 0, word_count = 2\<rparr>,
               \<lparr>GlyphsLine.word32 = [word4], y_position = 20, word_count = 1\<rparr>], 2)) \<and>
   y_position (\<lparr>GlyphsLine.word32 = [word4], y_position = 20, word_count = 1\<rparr>) =
     0 + int 1 * face_get_line_spacing example_face \<and>
   (0 :: int) < face_get_line_spacing example_face \<and>
   sorted_wrt (<) [0 :: int, 20]"
  using line_y_positions [OF scenario_A] scenario_A
  by (simp add: example_line_spacing)

subsection \<open>The words stored in the lines\<close>

lemma placed_close_line:
  "close_line total_word_count line_spacing glyphs_boundary s = Inr s' \<Longrightarrow> placed s' = placed s"
  by (auto simp: placed_def close_line_def Let_def split: if_splits)

lemma placed_place_word:
  "place_word curr_word_glyps advance s = Inr s' \<Longrightarrow>
     placed s' = placed s @ [WordGlyphs.word32 curr_word_glyps]"
  by (auto simp: placed_def place_word_def split: if_splits)

text \<open>
  The loop stores a prefix of the words it is given, in their order; it stores all of them
  unless it leaves with the height overflowed.
\<close>

lemma placed_loop:
  assumes "glyph_lines_loop total_word_count space_x line_spacing glyphs_boundary word_glyps s
             = Inr t"
  shows "\<exists>k \<le> length word_glyps.
           placed t = placed s @ map WordGlyphs.word32 (take k word_glyps) \<and>
           (height_is_overflowed t \<or> k = length word_glyps)"
  using assms
proof (induction word_glyps arbitrary: s)
  case Nil
  then show ?case by simp
next
  case (Cons curr_word_glyps rest)
  show ?case
  proof (cases "curr_y s + line_spacing \<ge> init_y glyphs_boundary + height glyphs_boundary")
    case True
    with Cons.prems have "t = s\<lparr>height_is_overflowed := True\<rparr>"
      by simp
    then show ?thesis
      by (intro exI [of _ 0]) (simp add: placed_def)
  next
    case False
    define advance where "advance = x_extent curr_word_glyps + space_x"
    define closing where
      "closing \<longleftrightarrow> curr_x s + advance > width glyphs_boundary \<and> curr_line_word_count s > 0"
    from Cons.prems False obtain s' s'' where
      c: "(if closing then close_line total_word_count line_spacing glyphs_boundary s
           else Inr s) = Inr s'"
      and p: "place_word curr_word_glyps advance s' = Inr s''"
      and l: "glyph_lines_loop total_word_count space_x line_spacing glyphs_boundary rest s''
                = Inr t"
      by (auto simp: Let_def advance_def closing_def split: sum.splits if_splits)
    from c have "placed s' = placed s"
      by (cases closing) (simp_all add: placed_close_line)
    with p have pl: "placed s'' = placed s @ [WordGlyphs.word32 curr_word_glyps]"
      by (simp add: placed_place_word)
    from Cons.IH [OF l] obtain k where k: "k \<le> length rest"
      "placed t = placed s'' @ map WordGlyphs.word32 (take k rest)"
      "height_is_overflowed t \<or> k = length rest"
      by blast
    then show ?thesis
      by (intro exI [of _ "Suc k"]) (simp add: pl)
  qed
qed

lemma concat_flush_prefix:
  "flush_last_line total_word_count s = Inr t \<Longrightarrow>
     prefix (concat (map GlyphsLine.word32 (glyph_lines t))) (placed s)"
  by (auto simp: flush_last_line_def placed_def split: if_splits)

lemma placed_initial: "placed (initial_line_state total_word_count glyphs_boundary) = []"
  by (simp add: placed_def initial_line_state_def)

text \<open>
  The loop leaves with the flag set only from a state in which the next line would reach the
  bottom of the boundary, and it changes nothing else in that state.
\<close>

lemma overflow_ok_loop:
  assumes "glyph_lines_loop total_word_count space_x line_spacing glyphs_boundary word_glyps s
             = Inr t"
    and "overflow_ok line_spacing glyphs_boundary s"
  shows "overflow_ok line_spacing glyphs_boundary t"
  using assms
proof (rule glyph_lines_loop_invariant)
  show "overflow_ok line_spacing glyphs_boundary (s\<lparr>height_is_overflowed := True\<rparr>)"
    if "curr_y s + line_spacing \<ge> init_y glyphs_boundary + height glyphs_boundary" for s
    using that by (simp add: overflow_ok_def)
  show "overflow_ok line_spacing glyphs_boundary s'"
    if "overflow_ok line_spacing glyphs_boundary s"
      and "curr_y s + line_spacing < init_y glyphs_boundary + height glyphs_boundary"
      and "close_line total_word_count line_spacing glyphs_boundary s = Inr s'" for s s'
    using that by (auto simp: overflow_ok_def close_line_def Let_def split: if_splits)
  show "overflow_ok line_spacing glyphs_boundary s'"
    if "overflow_ok line_spacing glyphs_boundary s"
      and "place_word curr_word_glyps advance s = Inr s'" for curr_word_glyps advance s s'
    using that by (auto simp: overflow_ok_def place_word_def split: if_splits)
qed

text \<open>
  Claim C3. The words of the returned lines, read line after line, are an initial segment of
  the input words in the input order. So a word is stored whole in exactly one line, at the
  place its position in the input gives it, or (from the first dropped word on) in no line;
  no word is stored twice. Words are dropped only for height: when some word is in no line,
  a line below the last returned one would reach the bottom of the boundary. Each line's
  count is the number of the words it holds, and the line count written out is the number of
  the lines.
\<close>

theorem lines_keep_words_in_order:
  assumes "compute_glyph_lines words_alloc lines_alloc face glyphs_boundary word_glyps =
             Some (Inr (out_lines, n))"
  shows "prefix (concat (map GlyphsLine.word32 out_lines)) (map WordGlyphs.word32 word_glyps) \<and>
         (concat (map GlyphsLine.word32 out_lines) \<noteq> map WordGlyphs.word32 word_glyps \<longrightarrow>
            init_y glyphs_boundary + n * face_get_line_spacing face + face_get_line_spacing face
              \<ge> init_y glyphs_boundary + height glyphs_boundary) \<and>
         (\<forall>l \<in> set out_lines. word_count l = int (length (GlyphsLine.word32 l))) \<and>
         n = int (length out_lines)"
proof -
  from assms obtain s1 s where
    l: "glyph_lines_loop (int (length word_glyps)) (fst (face_get_string_extent face utf32_space))
         (face_get_line_spacing face) glyphs_boundary word_glyps
         (initial_line_state (int (length word_glyps)) glyphs_boundary) = Inr s1"
    and f: "flush_last_line (int (length word_glyps)) s1 = Inr s"
    and res: "out_lines = glyph_lines s" "n = int (length out_lines)" "counters_ok s"
    by (rule compute_glyph_lines_result)
  obtain k where k: "placed s1 = map WordGlyphs.word32 (take k word_glyps)"
      "height_is_overflowed s1 \<or> k = length word_glyps"
    using placed_loop [OF l] by (auto simp: placed_initial)
  then have "prefix (placed s1) (map WordGlyphs.word32 word_glyps)"
    by (simp add: take_map [symmetric] take_is_prefix)
  with concat_flush_prefix [OF f]
  have pre: "prefix (concat (map GlyphsLine.word32 out_lines)) (map WordGlyphs.word32 word_glyps)"
    unfolding res(1) by (rule prefix_order.trans)
  have drop: "init_y glyphs_boundary + n * face_get_line_spacing face + face_get_line_spacing face
                \<ge> init_y glyphs_boundary + height glyphs_boundary"
    if ne: "concat (map GlyphsLine.word32 out_lines) \<noteq> map WordGlyphs.word32 word_glyps"
  proof -
    have ov: "height_is_overflowed s1"
    proof (rule ccontr)
      assume no: "\<not> height_is_overflowed s1"
      with k have "placed s1 = map WordGlyphs.word32 word_glyps"
        by simp
      moreover from no f have "concat (map GlyphsLine.word32 out_lines) = placed s1"
        by (auto simp: res(1) flush_last_line_def placed_def split: if_splits)
      ultimately show False
        using ne by simp
    qed
    have "overflow_ok (face_get_line_spacing face) glyphs_boundary s1"
      using l by (rule overflow_ok_loop) (simp add: overflow_ok_def initial_line_state_def)
    with ov have y: "curr_y s1 + face_get_line_spacing face
                       \<ge> init_y glyphs_boundary + height glyphs_boundary"
      by (simp add: overflow_ok_def)
    have "y_ok (init_y glyphs_boundary) (face_get_line_spacing face) s1"
      using l y_ok_initial by (rule y_ok_loop)
    then have "curr_y s1 = init_y glyphs_boundary
                 + int (length (glyph_lines s1)) * face_get_line_spacing face"
      by (simp add: y_ok_def)
    moreover from ov f have "out_lines = glyph_lines s1"
      by (auto simp: res(1) flush_last_line_def)
    ultimately show ?thesis
      using y res(2) by simp
  qed
  from res(1,3)
  have "\<forall>l \<in> set out_lines. word_count l = int (length (GlyphsLine.word32 l))"
    by (simp add: counters_ok_def)
  with pre drop res(2) show ?thesis
    by blast
qed

theorem lines_keep_words_in_order_witness:
  "compute_glyph_lines True True example_face
     \<lparr>init_x = 0, init_y = 0, width = 100, height = 30\<rparr>
     [measure_word example_face word6, measure_word example_face word6,
      measure_word example_face word6] =
   Some (Inr ([\<lparr>GlyphsLine.word32 = [word6], y_position = 0, word_count = 1\<rparr>], 1)) \<and>
   prefix [word6] [word6, word6, word6] \<and>
   [word6] \<noteq> [word6, word6, word6] \<and>
   init_y \<lparr>init_x = 0, init_y = 0, width = 100, height = 30\<rparr>
     + 1 * face_get_line_spacing example_face + face_get_line_spacing example_face
     \<ge> init_y \<lparr>init_x = 0, init_y = 0, width = 100, height = 30\<rparr>
       + height \<lparr>init_x = 0, init_y = 0, width = 100, height = 30\<rparr> \<and>
   word_count \<lparr>GlyphsLine.word32 = [word6], y_position = 0, word_count = 1\<rparr> =
     int (length (GlyphsLine.word32
       \<lparr>GlyphsLine.word32 = [word6], y_position = 0, word_count = 1\<rparr>)) \<and>
   (1 :: int) = int (length [\<lparr>GlyphsLine.word32 = [word6], y_position = 0, word_count = 1\<rparr>])"
  using lines_keep_words_in_order [OF scenario_B_three_words] scenario_B_three_words
  by (simp add: example_word6)

subsection \<open>The smallest word lists\<close>

text \<open>
  For an empty word list the loop body never runs, the flag stays unset and the code after
  the loop stores the last line at \<open>glyph_lines[0]\<close>. The block of \<open>glyph_lines\<close> was
  allocated for \<open>word_count = 0\<close> elements, so the store is outside the block, whatever the
  face and the boundary. Where \<^verbatim>\<open>malloc\<close> gives no block for a size of zero the function
  returns \<^verbatim>\<open>NULL\<close> before it.
\<close>

lemma empty_word_list_run:
  "compute_glyph_lines True True face glyphs_boundary [] = Some (Inl OutOfBounds)"
  "compute_glyph_lines False lines_alloc face glyphs_boundary [] = None"
  "compute_glyph_lines True False face glyphs_boundary [] = None"
  by (simp_all add: compute_glyph_lines_def initial_line_state_def flush_last_line_def
        in_block_def Let_def)




subsection \<open>What the two tests of the loop do\<close>

text \<open>
  One pass of the loop that passes the height test closes the line in progress exactly when
  \<open>curr_x + curr_word_x_advance\<close> exceeds \<open>width\<close> and the line holds a word already.
\<close>

lemma loop_pass_closes_line_iff:
  assumes "curr_y s + line_spacing < init_y glyphs_boundary + height glyphs_boundary"
    and "glyph_lines_loop total_word_count space_x line_spacing glyphs_boundary
           [curr_word_glyps] s = Inr t"
  shows "line_count t =
           line_count s +
           (if curr_x s + (x_extent curr_word_glyps + space_x) > width glyphs_boundary \<and>
               curr_line_word_count s > 0
            then 1 else 0)"
  using assms
  by (auto simp: Let_def close_line_def place_word_def split: if_splits sum.splits)

lemma lines_fit_close_line:
  assumes "lines_fit line_spacing glyphs_boundary s"
    and "curr_y s + line_spacing < init_y glyphs_boundary + height glyphs_boundary"
    and "close_line total_word_count line_spacing glyphs_boundary s = Inr s'"
  shows "lines_fit line_spacing glyphs_boundary s'"
  using assms by (auto simp: lines_fit_def close_line_def Let_def split: if_splits)

lemma lines_fit_place_word:
  "lines_fit line_spacing glyphs_boundary s \<Longrightarrow>
     place_word curr_word_glyps advance s = Inr s' \<Longrightarrow>
     lines_fit line_spacing glyphs_boundary s'"
  by (auto simp: lines_fit_def place_word_def split: if_splits)

lemma lines_fit_loop:
  assumes "glyph_lines_loop total_word_count space_x line_spacing glyphs_boundary word_glyps s
             = Inr t"
    and "lines_fit line_spacing glyphs_boundary s"
  shows "lines_fit line_spacing glyphs_boundary t"
  using assms
proof (rule glyph_lines_loop_invariant)
  show "lines_fit line_spacing glyphs_boundary (s\<lparr>height_is_overflowed := True\<rparr>)"
    if "lines_fit line_spacing glyphs_boundary s" for s
    using that by (simp add: lines_fit_def)
qed (erule lines_fit_close_line lines_fit_place_word, assumption+)+

text \<open>
  Every returned line but the last ends above the bottom of the boundary. The last line is
  the one written after the loop, where the height is not tested.
\<close>

lemma lines_before_the_last_fit:
  assumes "compute_glyph_lines words_alloc lines_alloc face glyphs_boundary word_glyps =
             Some (Inr (out_lines, n))"
    and "l \<in> set (butlast out_lines)"
  shows "y_position l + face_get_line_spacing face <
           init_y glyphs_boundary + height glyphs_boundary"
proof -
  from assms(1) obtain s1 s where
    l: "glyph_lines_loop (int (length word_glyps)) (fst (face_get_string_extent face utf32_space))
         (face_get_line_spacing face) glyphs_boundary word_glyps
         (initial_line_state (int (length word_glyps)) glyphs_boundary) = Inr s1"
    and f: "flush_last_line (int (length word_glyps)) s1 = Inr s"
    and r: "out_lines = glyph_lines s"
    by (rule compute_glyph_lines_result)
  have "lines_fit (face_get_line_spacing face) glyphs_boundary s1"
    using l by (rule lines_fit_loop) (simp add: lines_fit_def initial_line_state_def)
  moreover from f r have "set (butlast out_lines) \<subseteq> set (glyph_lines s1)"
    by (auto simp: flush_last_line_def split: if_splits dest: in_set_butlastD)
  ultimately show ?thesis
    using assms(2) by (auto simp: lines_fit_def)
qed

subsection \<open>The wrap test\<close>

text \<open>
  Claim C1. The claim puts the wrap threshold at \<open>init_x + width\<close>. The loop compares
  \<open>curr_x + curr_word_x_advance\<close> with \<open>width\<close> alone. In a boundary that starts at
  \<open>init_x = 50\<close> and is 100 pixels wide, with a space of 10 pixels, the first word of 40
  pixels moves the pen from 50 to 100; for the second word of 40 pixels
  \<open>curr_x + advance = 150 = init_x + width\<close>, which by the claim still fits on the line. The
  code finds \<open>150 > 100\<close>, closes the line and puts the second word on a line of its own.
\<close>

theorem wrap_compares_with_width_alone:
  "compute_glyph_lines True True example_face
     \<lparr>init_x = 50, init_y = 0, width = 100, height = 1000\<rparr>
     [measure_word example_face word4, measure_word example_face word4] =
   Some (Inr ([\<lparr>GlyphsLine.word32 = [word4], y_position = 0, word_count = 1\<rparr>,
               \<lparr>GlyphsLine.word32 = [word4], y_position = 20, word_count = 1\<rparr>], 2)) \<and>
   init_x \<lparr>init_x = 50, init_y = 0, width = 100, height = 1000\<rparr>
     + (x_extent (measure_word example_face word4)
        + fst (face_get_string_extent example_face utf32_space))
     + (x_extent (measure_word example_face word4)
        + fst (face_get_string_extent example_face utf32_space)) =
   init_x \<lparr>init_x = 50, init_y = 0, width = 100, height = 1000\<rparr>
     + width \<lparr>init_x = 50, init_y = 0, width = 100, height = 1000\<rparr>"
  by (simp add: line_breaker_eval)

subsection \<open>The height test\<close>

text \<open>
  Claim C2. The claim lets no returned line reach the bottom of the boundary: with a height
  of 30, a line spacing of 20 and \<open>init_y = 0\<close> only the line at 0 fits. The loop tests the
  height at the head of each pass, before the wrap, and not again after it. When the last
  word wraps, no pass follows, and the line it started is written out below the boundary: for
  two words of 60 pixels in a width of 100 the code returns two lines, the second at
  \<open>y = 20\<close> with \<open>20 + 20 \<ge> 0 + 30\<close>.
\<close>

theorem last_word_wraps_below_the_boundary:
  "compute_glyph_lines True True example_face
     \<lparr>init_x = 0, init_y = 0, width = 100, height = 30\<rparr>
     [measure_word example_face word6, measure_word example_face word6] =
   Some (Inr ([\<lparr>GlyphsLine.word32 = [word6], y_position = 0, word_count = 1\<rparr>,
               \<lparr>GlyphsLine.word32 = [word6], y_position = 20, word_count = 1\<rparr>], 2)) \<and>
   y_position \<lparr>GlyphsLine.word32 = [word6], y_position = 20, word_count = 1\<rparr>
     + face_get_line_spacing example_face
     \<ge> init_y \<lparr>init_x = 0, init_y = 0, width = 100, height = 30\<rparr>
       + height \<lparr>init_x = 0, init_y = 0, width = 100, height = 30\<rparr>"
  by (simp add: line_breaker_eval)

section \<open>Properties of the UTF-8 decoder\<close>

subsection \<open>Bits of the masks and markers\<close>

lemma mask_0x3F: "(0x3F :: 'a::len word) = mask 6"
  by (simp add: mask_eq_exp_minus_1)

lemma mask_0x07: "(0x07 :: 'a::len word) = mask 3"
  by (simp add: mask_eq_exp_minus_1)

lemma bit_0x80: "bit (0x80 :: int) n \<longleftrightarrow> n = 7"
proof -
  have "(0x80 :: int) = 2 ^ 7" by simp
  then show ?thesis by (simp only: bit_exp_iff) auto
qed

lemma bit_0xF0: "bit (0xF0 :: int) n \<longleftrightarrow> 4 \<le> n \<and> n < 8"
proof -
  have "(0xF0 :: int) = push_bit 4 (mask 4)" by (simp add: mask_eq_exp_minus_1)
  then show ?thesis by (simp only: bit_simps) auto
qed

text \<open>The decoder's masks take the payload back out of a continuation byte and a leading byte.\<close>

lemma continuation_payload:
  "ucast (((0x80 :: UTF8) OR ucast (z AND (0x3F :: UTF32))) AND 0x3F) = z AND (0x3F :: UTF32)"
  unfolding mask_0x3F
  by (rule bit_word_eqI) (auto simp add: bit_simps bit_0x80)

lemma leading_payload:
  "ucast (((0xF0 :: UTF8) OR ucast (z :: UTF32)) AND 0x07) = z AND (0x07 :: UTF32)"
  unfolding mask_0x07
  by (rule bit_word_eqI) (auto simp add: bit_simps bit_0xF0)

text \<open>A value of at most 21 bits is the union of its four bit fields.\<close>

lemma reassemble:
  fixes c :: UTF32
  assumes "c \<le> 0x10FFFF"
  shows "push_bit 18 (drop_bit 18 c AND 0x07) OR push_bit 12 (drop_bit 12 c AND 0x3F)
           OR push_bit 6 (drop_bit 6 c AND 0x3F) OR (c AND 0x3F) = c"
proof -
  have "c < 2 ^ 21"
    using assms by (simp add: word_le_nat_alt word_less_nat_alt)
  then have hi: "\<not> bit c n" if "21 \<le> n" for n
    using that by (metis bit_take_bit_iff less_mask_eq not_less take_bit_eq_mask)
  show ?thesis
    unfolding mask_0x3F mask_0x07
  proof (rule bit_word_eqI)
    fix n :: nat
    assume "n < LENGTH(32)"
    consider "n < 6" | "6 \<le> n" "n < 12" | "12 \<le> n" "n < 18" | "18 \<le> n" "n < 21" | "21 \<le> n"
      by linarith
    then show "bit (push_bit 18 (drop_bit 18 c AND mask 3) OR
                    push_bit 12 (drop_bit 12 c AND mask 6) OR
                    push_bit 6 (drop_bit 6 c AND mask 6) OR (c AND mask 6)) n = bit c n"
      by cases (auto simp add: bit_simps dest: hi)
  qed
qed

lemma leading_bits_cases:
  fixes c :: UTF32
  assumes "c \<le> 0x10FFFF"
  shows "drop_bit 18 c \<in> {0, 1, 2, 3, 4}"
proof -
  have "unat c \<le> 1114111"
    using assms by (simp add: word_le_nat_alt)
  then have "unat c div 2 ^ 18 \<le> 4"
    by simp
  then have "drop_bit 18 (unat c) \<le> 4"
    by (simp only: drop_bit_eq_div)
  then have "unat (drop_bit 18 c) \<le> 4"
    by (simp only: unat_drop_bit_eq)
  then have "unat (drop_bit 18 c) \<in> {0, 1, 2, 3, 4}"
    by auto
  then show ?thesis
    by (simp add: word_unat_eq_iff)
qed

text \<open>The first byte of a four-byte encoding passes none of the earlier tests and the last one.\<close>

lemma leading_byte_class:
  fixes c :: UTF32
  assumes "c \<le> 0x10FFFF"
  defines "b0 \<equiv> (0xF0 :: UTF8) OR ucast (drop_bit 18 c)"
  shows "b0 \<noteq> 0" and "b0 AND 0x80 \<noteq> 0" and "b0 AND 0xE0 \<noteq> 0xC0" and "b0 AND 0xF0 \<noteq> 0xE0"
    and "b0 AND 0xF8 = 0xF0"
  using leading_bits_cases [OF assms(1)] unfolding b0_def by auto

subsection \<open>Decoding a four-byte encoding\<close>

lemma read_encode4:
  "read_utf8 (utf8_encode4 c) 0 = Inr (0xF0 OR ucast (drop_bit 18 c))"
  "read_utf8 (utf8_encode4 c) 1 = Inr (0x80 OR ucast (drop_bit 12 c AND 0x3F))"
  "read_utf8 (utf8_encode4 c) 2 = Inr (0x80 OR ucast (drop_bit 6 c AND 0x3F))"
  "read_utf8 (utf8_encode4 c) 3 = Inr (0x80 OR ucast (c AND 0x3F))"
  "read_utf8 (utf8_encode4 c) 4 = Inr 0"
  by (simp_all add: read_utf8_def utf8_encode4_def)

lemma length_encode4:
  assumes "c \<le> 0x10FFFF"
  shows "next_utf8_glyph_length (utf8_encode4 c) 0 = Inr 4"
  using leading_byte_class [OF assms]
  by (simp add: next_utf8_glyph_length_def read_encode4)

lemma value_encode4:
  assumes "c \<le> 0x10FFFF"
  shows "utf8_glyph_value (utf8_encode4 c) 0 4 old = Inr c"
proof -
  have "utf8_glyph_value (utf8_encode4 c) 0 4 old =
      Inr (push_bit 18 (ucast (((0xF0 :: UTF8) OR ucast (drop_bit 18 c)) AND 0x07))
        OR push_bit 12 (ucast (((0x80 :: UTF8) OR ucast (drop_bit 12 c AND 0x3F)) AND 0x3F))
        OR push_bit 6 (ucast (((0x80 :: UTF8) OR ucast (drop_bit 6 c AND 0x3F)) AND 0x3F))
        OR ucast (((0x80 :: UTF8) OR ucast (c AND 0x3F)) AND 0x3F))"
    by (simp add: utf8_glyph_value_def read_encode4)
  also have "\<dots> = Inr c"
    by (simp only: continuation_payload leading_payload reassemble [OF assms])
  finally show ?thesis .
qed

text \<open>Both loops end: each runs its body once and then meets the terminator.\<close>

lemma count_encode4:
  assumes "c \<le> 0x10FFFF"
  shows "utf8_length_loop (utf8_encode4 c) 0 0 = Some (Inr 1)"
proof -
  have "utf8_length_loop (utf8_encode4 c) 4 1 = Some (Inr 1)"
    by (subst utf8_length_loop.simps) (simp add: read_encode4)
  then show ?thesis
    using leading_byte_class(1) [OF assms]
    by (subst utf8_length_loop.simps) (simp add: read_encode4 length_encode4 [OF assms])
qed

lemma convert_encode4:
  assumes "c \<le> 0x10FFFF"
  shows "utf8_convert_loop fresh (utf8_encode4 c) 2 0 [] = Some (Inr [c, 0])"
proof -
  have "utf8_convert_loop fresh (utf8_encode4 c) 2 4 [c] = Some (Inr [c, 0])"
    by (subst utf8_convert_loop.simps) (simp add: read_encode4)
  then show ?thesis
    using leading_byte_class(1) [OF assms]
    by (subst utf8_convert_loop.simps)
       (simp add: read_encode4 length_encode4 [OF assms] value_encode4 [OF assms])
qed

text \<open>
  Claim C8. For every Unicode scalar value \<open>c\<close> from \<open>U+10000\<close> up (to the largest,
  \<open>U+10FFFF\<close>), \<open>utf8_to_utf32\<close> applied to the null-terminated four-byte UTF-8 encoding of
  \<open>c\<close> returns, without reading outside the buffer, the string that holds \<open>c\<close> as its one
  codepoint, followed by the terminator.
\<close>

theorem utf8_roundtrip_4byte:
  assumes "0x10000 \<le> c" and "c \<le> 0x10FFFF"
  shows "utf8_to_utf32 fresh (utf8_encode4 c) = Some (Inr [c, 0])"
  by (simp add: utf8_to_utf32_def count_encode4 [OF assms(2)] convert_encode4 [OF assms(2)])

theorem utf8_roundtrip_4byte_witness:
  "(0x10000 :: UTF32) \<le> 0x1F600 \<and> (0x1F600 :: UTF32) \<le> 0x10FFFF \<and>
   utf8_encode4 0x1F600 = [0xF0, 0x9F, 0x98, 0x80, 0] \<and>
   utf8_to_utf32 (\<lambda>k. 0) [0xF0, 0x9F, 0x98, 0x80, 0] = Some (Inr [0x1F600, 0])"
proof -
  have a: "(0x10000 :: UTF32) \<le> 0x1F600" and b: "(0x1F600 :: UTF32) \<le> 0x10FFFF"
    by simp_all
  have e: "utf8_encode4 0x1F600 = [0xF0, 0x9F, 0x98, 0x80, 0]"
    by (simp add: utf8_encode4_def drop_bit_eq_div)
  from utf8_roundtrip_4byte [OF a b, of "\<lambda>k. 0"] a b e show ?thesis
    by simp
qed

subsection \<open>An invalid leading byte\<close>

text \<open>
  In the string \<open>a\<close>, \<open>0x80\<close> the counting loop steps from the letter to the invalid byte and
  from the invalid byte, by \<open>- 1\<close>, back to the letter: no run of the loop from either offset
  returns.
\<close>

lemma length_loop_never_returns:
  assumes "utf8_length_loop buf p n = Some r"
  shows "\<not> (buf = [0x61, 0x80, 0] \<and> (p = 0 \<or> p = 1))"
  using assms
proof (induction rule: utf8_length_loop.raw_induct [rotated 1, consumes 1])
  case (1 loop buf p n r)
  show ?case
  proof
    assume h: "buf = [0x61, 0x80, 0] \<and> (p = 0 \<or> p = 1)"
    then consider "p = 0" | "p = 1" by blast
    then show False
    proof cases
      case 1
      with h "1.hyps" have "loop buf 1 (n + 1) = Some r"
        by (simp add: read_utf8_def next_utf8_glyph_length_def)
      from "1.IH" [OF this] h show False by simp
    next
      case 2
      with h "1.hyps" have "loop buf 0 (n + 1) = Some r"
        by (simp add: read_utf8_def next_utf8_glyph_length_def)
      from "1.IH" [OF this] h show False by simp
    qed
  qed
qed

text \<open>
  Claim C7. The claim asks for a defined outcome at a byte that is no valid leading byte: one
  replacement codepoint, an advance by one byte, a decoder that ends and stays inside the
  buffer. The code adds the \<open>- 1\<close> that \<open>next_utf8_glyph_length\<close> returns to the input pointer.
  For the string that is the single byte \<open>0x80\<close> the pointer leaves the buffer at its front
  and the next read is outside it. For the string \<open>a\<close>, \<open>0x80\<close> the counting loop never ends.
  In neither run is a codepoint produced for the byte.
\<close>

theorem invalid_leading_byte_is_not_handled:
  "next_utf8_glyph_length [0x80, 0] 0 = Inr (- 1) \<and>
   utf8_to_utf32 fresh [0x80, 0] = Some (Inl OutOfBounds) \<and>
   utf8_to_utf32 fresh [0x61, 0x80, 0] = None"
proof (intro conjI)
  show "next_utf8_glyph_length [0x80, 0] 0 = Inr (- 1)"
    by (simp add: next_utf8_glyph_length_def read_utf8_def)
  have "utf8_length_loop [0x80, 0] (- 1) 1 = Some (Inl OutOfBounds)"
    by (subst utf8_length_loop.simps) (simp add: read_utf8_def)
  then have "utf8_length_loop [0x80, 0] 0 0 = Some (Inl OutOfBounds)"
    by (subst utf8_length_loop.simps) (simp add: read_utf8_def next_utf8_glyph_length_def)
  then show "utf8_to_utf32 fresh [0x80, 0] = Some (Inl OutOfBounds)"
    by (simp add: utf8_to_utf32_def)
  have "utf8_length_loop [0x61, 0x80, 0] 0 0 = None"
    using length_loop_never_returns [of "[0x61, 0x80, 0]" 0 0]
    by (cases "utf8_length_loop [0x61, 0x80, 0] 0 0") auto
  then show "utf8_to_utf32 fresh [0x61, 0x80, 0] = None"
    by (simp add: utf8_to_utf32_def)
qed

section \<open>Properties of the framebuffer\<close>

lemma set_pixel_outside:
  "\<not> (x > 0 \<and> x < w self \<and> y > 0 \<and> y < h self) \<Longrightarrow>
     framebuffer_set_pixel self x y r g b = self"
  by (auto simp: framebuffer_set_pixel_def)

lemma set_pixel_fields:
  "(framebuffer_set_pixel self x y r g b)\<lparr>fb_data := fb_data self\<rparr> = self"
  by (simp add: framebuffer_set_pixel_def Let_def)

lemma set_pixel_data:
  assumes "x > 0 \<and> x < w self \<and> y > 0 \<and> y < h self"
  shows "fb_data (framebuffer_set_pixel self x y r g b) =
           (fb_data self)(pixel_offset self x y := b, pixel_offset self x y + 1 := g,
              pixel_offset self x y + 2 := r, pixel_offset self x y + 3 := 0)"
  using assms by (simp add: framebuffer_set_pixel_def Let_def pixel_offset_def)

lemma set_pixel_geometry:
  "w (framebuffer_set_pixel self x y r g b) = w self"
  "h (framebuffer_set_pixel self x y r g b) = h self"
  "fb_bytes (framebuffer_set_pixel self x y r g b) = fb_bytes self"
  "slop (framebuffer_set_pixel self x y r g b) = slop self"
  by (simp_all add: framebuffer_set_pixel_def Let_def)

lemma pixel_offset_set_pixel:
  "pixel_offset (framebuffer_set_pixel self x y r g b) x' y' = pixel_offset self x' y'"
  by (simp add: pixel_offset_def set_pixel_geometry)

text \<open>
  \<^verbatim>\<open>framebuffer_init\<close> makes the stride at least the width of a row of pixels, so the slop it
  stores is never negative.
\<close>

lemma framebuffer_init_slop:
  "0 \<le> slop (framebuffer_init self opened_fd xres yres bits_per_pixel finfo_line_length mapped)"
  by (simp add: framebuffer_init_def Let_def)

text \<open>
  With 4 bytes per pixel and a slop that is not negative, the bytes of two different pixels
  of the surface do not overlap.
\<close>

lemma offsets_apart:
  assumes bpp: "fb_bytes self = 4" and sl: "0 \<le> slop self"
    and xy: "0 \<le> x" "x < w self" and xy': "0 \<le> x'" "x' < w self"
    and ne: "(x', y') \<noteq> (x, y)"
  shows "pixel_offset self x' y' + 4 \<le> pixel_offset self x y \<or>
         pixel_offset self x y + 4 \<le> pixel_offset self x' y'"
proof -
  define st where "st = 4 * w self + slop self"
  have off: "pixel_offset self a c = c * st + 4 * a" for a c
    by (simp add: pixel_offset_def bpp st_def algebra_simps)
  have st: "4 * (x + 1) \<le> st" "4 * (x' + 1) \<le> st"
    using sl xy xy' by (simp_all add: st_def)
  from ne have "y' \<noteq> y \<or> x' \<noteq> x"
    by auto
  then consider "y' < y" | "y < y'" | "y' = y" "x' < x" | "y' = y" "x < x'"
    by atomize_elim auto
  then show ?thesis
  proof cases
    case 1
    then have "y' + 1 \<le> y" by simp
    then have "(y' + 1) * st \<le> y * st"
      using st xy by (intro mult_right_mono) auto
    then show ?thesis using st xy xy' by (simp add: off algebra_simps)
  next
    case 2
    then have "y + 1 \<le> y'" by simp
    then have "(y + 1) * st \<le> y' * st"
      using st xy by (intro mult_right_mono) auto
    then show ?thesis using st xy xy' by (simp add: off algebra_simps)
  next
    case 3
    then show ?thesis by (simp add: off)
  next
    case 4
    then show ?thesis by (simp add: off)
  qed
qed

lemma upto_0_3: "[0 .. (3::int)] = [0, 1, 2, 3]"
  by (simp add: upto_rec1)

lemma set_pixel_other_bytes:
  assumes inb: "x > 0 \<and> x < w self \<and> y > 0 \<and> y < h self"
    and bpp: "fb_bytes self = 4" and sl: "0 \<le> slop self"
    and xy': "0 \<le> x'" "x' < w self" and ne: "(x', y') \<noteq> (x, y)"
  shows "pixel_bytes (framebuffer_set_pixel self x y r g b) x' y' = pixel_bytes self x' y'"
proof -
  have "pixel_offset self x' y' + 4 \<le> pixel_offset self x y \<or>
        pixel_offset self x y + 4 \<le> pixel_offset self x' y'"
    using offsets_apart [OF bpp sl _ _ xy' ne] inb by simp
  then show ?thesis
    by (auto simp add: pixel_bytes_def pixel_offset_set_pixel set_pixel_geometry bpp upto_0_3
          set_pixel_data [OF inb])
qed

lemma set_pixel_own_bytes:
  assumes inb: "x > 0 \<and> x < w self \<and> y > 0 \<and> y < h self"
    and bpp: "fb_bytes self = 4"
  shows "pixel_bytes (framebuffer_set_pixel self x y r g b) x y = [b, g, r, 0]"
  by (simp add: pixel_bytes_def pixel_offset_set_pixel set_pixel_geometry bpp upto_0_3
        set_pixel_data [OF inb])

lemma get_pixel_bytes:
  assumes "x > 0 \<and> x < w self \<and> y > 0 \<and> y < h self" and "fb_bytes self = 4"
  shows "framebuffer_get_pixel self x y =
           (pixel_bytes self x y ! 2, pixel_bytes self x y ! 1, pixel_bytes self x y ! 0)"
  using assms
  by (simp add: framebuffer_get_pixel_def Let_def pixel_bytes_def pixel_offset_def upto_0_3)

lemma set_pixel_get_other:
  assumes inb: "x > 0 \<and> x < w self \<and> y > 0 \<and> y < h self"
    and bpp: "fb_bytes self = 4" and sl: "0 \<le> slop self"
    and ne: "(x', y') \<noteq> (x, y)"
  shows "framebuffer_get_pixel (framebuffer_set_pixel self x y r g b) x' y' =
         framebuffer_get_pixel self x' y'"
proof (cases "x' > 0 \<and> x' < w self \<and> y' > 0 \<and> y' < h self")
  case True
  then have xy': "0 \<le> x'" "x' < w self" by simp_all
  have t: "x' > 0 \<and> x' < w (framebuffer_set_pixel self x y r g b) \<and> y' > 0 \<and>
           y' < h (framebuffer_set_pixel self x y r g b)"
    using True by (simp add: set_pixel_geometry)
  show ?thesis
    by (simp only: get_pixel_bytes [OF t, unfolded set_pixel_geometry, OF bpp]
          get_pixel_bytes [OF True bpp]
          set_pixel_other_bytes [OF inb bpp sl xy' ne])
next
  case False
  then show ?thesis
    by (auto simp: framebuffer_get_pixel_def set_pixel_geometry)
qed

lemma set_pixel_get_own:
  assumes inb: "x > 0 \<and> x < w self \<and> y > 0 \<and> y < h self"
  shows "framebuffer_get_pixel (framebuffer_set_pixel self x y r g b) x y = (r, g, b)"
  using inb
  by (simp add: framebuffer_get_pixel_def Let_def set_pixel_geometry
        set_pixel_data [OF inb] pixel_offset_def)

text \<open>
  Claim C9. The claim lets a request that passes the bounds test modify the addressed pixel
  and nothing else. \<^verbatim>\<open>framebuffer_set_pixel\<close> stores four bytes whatever \<open>fb_bytes\<close> is. On a
  framebuffer with 3 bytes per pixel the request at \<open>(1, 1)\<close> passes the test, and the fourth
  byte it stores is the first byte of the pixel \<open>(2, 1)\<close>: the blue channel of that pixel
  changes from \<open>0xFF\<close> to \<open>0\<close>.
\<close>

theorem set_pixel_24bpp_touches_next_pixel:
  "(0 :: int) < 1 \<and> 1 < w example_fb24 \<and> (0 :: int) < 1 \<and> 1 < h example_fb24 \<and>
   ((2 :: int), (1 :: int)) \<noteq> (1, 1) \<and>
   framebuffer_get_pixel example_fb24 2 1 = (0xFF, 0xFF, 0xFF) \<and>
   framebuffer_get_pixel (framebuffer_set_pixel example_fb24 1 1 9 9 9) 2 1 = (0xFF, 0xFF, 0)"
  by (simp add: example_fb24_def framebuffer_set_pixel_def framebuffer_get_pixel_def Let_def)

text \<open>
  What holds of \<^verbatim>\<open>framebuffer_set_pixel\<close>. A request whose coordinates fail the test
  \<open>x > 0 \<and> x < w \<and> y > 0 \<and> y < h\<close> leaves the whole framebuffer as it was; that includes the
  requests for the first row and the first column. A request that passes the test, on a
  framebuffer with 4 bytes per pixel and a slop that is not negative, changes nothing but the
  mapped memory, stores \<open>b, g, r, 0\<close> in the four bytes of the addressed pixel, and leaves the
  bytes of every other pixel of the surface, and what \<^verbatim>\<open>framebuffer_get_pixel\<close> reads at every
  other coordinate pair, as they were.
\<close>

theorem set_pixel_frame:
  "(\<not> (x > 0 \<and> x < w self \<and> y > 0 \<and> y < h self) \<longrightarrow>
      framebuffer_set_pixel self x y r g b = self) \<and>
   (x > 0 \<and> x < w self \<and> y > 0 \<and> y < h self \<and> fb_bytes self = 4 \<and> 0 \<le> slop self \<longrightarrow>
      (framebuffer_set_pixel self x y r g b)\<lparr>fb_data := fb_data self\<rparr> = self \<and>
      pixel_bytes (framebuffer_set_pixel self x y r g b) x y = [b, g, r, 0] \<and>
      framebuffer_get_pixel (framebuffer_set_pixel self x y r g b) x y = (r, g, b) \<and>
      (\<forall>x' y'. 0 \<le> x' \<and> x' < w self \<and> 0 \<le> y' \<and> y' < h self \<and> (x', y') \<noteq> (x, y) \<longrightarrow>
         pixel_bytes (framebuffer_set_pixel self x y r g b) x' y' = pixel_bytes self x' y') \<and>
      (\<forall>x' y'. (x', y') \<noteq> (x, y) \<longrightarrow>
         framebuffer_get_pixel (framebuffer_set_pixel self x y r g b) x' y' =
           framebuffer_get_pixel self x' y'))"
proof (intro conjI impI allI)
  assume "\<not> (x > 0 \<and> x < w self \<and> y > 0 \<and> y < h self)"
  then show "framebuffer_set_pixel self x y r g b = self"
    by (rule set_pixel_outside)
next
  assume a: "x > 0 \<and> x < w self \<and> y > 0 \<and> y < h self \<and> fb_bytes self = 4 \<and> 0 \<le> slop self"
  then have inb: "x > 0 \<and> x < w self \<and> y > 0 \<and> y < h self"
    and bpp: "fb_bytes self = 4" and sl: "0 \<le> slop self"
    by simp_all
  show "(framebuffer_set_pixel self x y r g b)\<lparr>fb_data := fb_data self\<rparr> = self"
    by (rule set_pixel_fields)
  show "pixel_bytes (framebuffer_set_pixel self x y r g b) x y = [b, g, r, 0]"
    by (rule set_pixel_own_bytes [OF inb bpp])
  show "framebuffer_get_pixel (framebuffer_set_pixel self x y r g b) x y = (r, g, b)"
    by (rule set_pixel_get_own [OF inb])
  show "pixel_bytes (framebuffer_set_pixel self x y r g b) x' y' = pixel_bytes self x' y'"
    if "0 \<le> x' \<and> x' < w self \<and> 0 \<le> y' \<and> y' < h self \<and> (x', y') \<noteq> (x, y)" for x' y'
    using that by (intro set_pixel_other_bytes [OF inb bpp sl]) simp_all
  show "framebuffer_get_pixel (framebuffer_set_pixel self x y r g b) x' y' =
          framebuffer_get_pixel self x' y'"
    if "(x', y') \<noteq> (x, y)" for x' y'
    using that by (rule set_pixel_get_other [OF inb bpp sl])
qed

theorem set_pixel_frame_witness:
  "\<not> ((0 :: int) > 0 \<and> 0 < w example_fb32 \<and> (1 :: int) > 0 \<and> 1 < h example_fb32) \<and>
   framebuffer_set_pixel example_fb32 0 1 9 8 7 = example_fb32 \<and>
   ((1 :: int) > 0 \<and> 1 < w example_fb32 \<and> (1 :: int) > 0 \<and> 1 < h example_fb32 \<and>
    fb_bytes example_fb32 = 4 \<and> 0 \<le> slop example_fb32) \<and>
   pixel_bytes (framebuffer_set_pixel example_fb32 1 1 9 8 7) 1 1 = [7, 8, 9, 0] \<and>
   framebuffer_get_pixel (framebuffer_set_pixel example_fb32 1 1 9 8 7) 1 1 = (9, 8, 7) \<and>
   pixel_bytes (framebuffer_set_pixel example_fb32 1 1 9 8 7) 2 1 =
     [0xFF, 0xFF, 0xFF, 0xFF] \<and>
   framebuffer_get_pixel (framebuffer_set_pixel example_fb32 1 1 9 8 7) 2 1 =
     (0xFF, 0xFF, 0xFF)"
proof -
  have out: "\<not> ((0 :: int) > 0 \<and> 0 < w example_fb32 \<and> (1 :: int) > 0 \<and> 1 < h example_fb32)"
    by simp
  have inb: "(1 :: int) > 0 \<and> 1 < w example_fb32 \<and> (1 :: int) > 0 \<and> 1 < h example_fb32 \<and>
             fb_bytes example_fb32 = 4 \<and> 0 \<le> slop example_fb32"
    by (simp add: example_fb32_def)
  have other: "(0 :: int) \<le> 2 \<and> 2 < w example_fb32 \<and> (0 :: int) \<le> 1 \<and> 1 < h example_fb32 \<and>
               ((2 :: int), (1 :: int)) \<noteq> (1, 1)"
    by (simp add: example_fb32_def)
  have before: "pixel_bytes example_fb32 2 1 = [0xFF, 0xFF, 0xFF, 0xFF]"
    "framebuffer_get_pixel example_fb32 2 1 = (0xFF, 0xFF, 0xFF)"
    by (simp_all add: example_fb32_def pixel_bytes_def upto_0_3 framebuffer_get_pixel_def)
  from set_pixel_frame [of 0 example_fb32 1 9 8 7] out
  have 1: "framebuffer_set_pixel example_fb32 0 1 9 8 7 = example_fb32"
    by blast
  from set_pixel_frame [of 1 example_fb32 1 9 8 7] inb other
  have 2: "pixel_bytes (framebuffer_set_pixel example_fb32 1 1 9 8 7) 1 1 = [7, 8, 9, 0]"
    "framebuffer_get_pixel (framebuffer_set_pixel example_fb32 1 1 9 8 7) 1 1 = (9, 8, 7)"
    "pixel_bytes (framebuffer_set_pixel example_fb32 1 1 9 8 7) 2 1 = pixel_bytes example_fb32 2 1"
    "framebuffer_get_pixel (framebuffer_set_pixel example_fb32 1 1 9 8 7) 2 1 =
       framebuffer_get_pixel example_fb32 2 1"
    by blast+
  from out inb 1 2 before show ?thesis
    by (simp only:) simp
qed

section \<open>Properties of the glyph compositor\<close>

text \<open>The loop over the columns of row \<open>i\<close>, started at column \<open>j\<close>.\<close>

lemma draw_columns_fold:
  "draw_columns set_pixel g x x_off row_offset i j fb =
     fold (\<lambda>j fb. set_pixel fb (x + j + x_off) row_offset
                     (coverage g i j) (coverage g i j) (coverage g i j))
          (filter (\<lambda>j. coverage g i j \<noteq> 0) [j .. bitmap_width g - 1]) fb"
proof (induction set_pixel g x x_off row_offset i j fb rule: draw_columns.induct)
  case (1 set_pixel g x x_off row_offset i j fb)
  show ?case
  proof (cases "j < bitmap_width g")
    case True
    then have u: "[j .. bitmap_width g - 1] = j # [j + 1 .. bitmap_width g - 1]"
      by (simp add: upto_rec1)
    show ?thesis
      using True "1.IH" [OF True refl refl]
      by (subst draw_columns.simps) (simp add: u Let_def coverage_def)
  next
    case False
    then show ?thesis
      by (subst draw_columns.simps) simp
  qed
qed

lemma draw_columns_cells:
  "draw_columns set_pixel g x x_off (y + i + y_off) i 0 fb =
     fold (write_cell set_pixel g x y x_off y_off)
          (map (\<lambda>j. (i, j)) (filter (\<lambda>j. coverage g i j \<noteq> 0) [0 .. bitmap_width g - 1])) fb"
  by (simp add: draw_columns_fold fold_map write_cell_def [abs_def] comp_def)

text \<open>The loop over the rows, started at row \<open>i\<close>.\<close>

lemma draw_rows_fold:
  "draw_rows set_pixel g x y x_off y_off i fb =
     fold (write_cell set_pixel g x y x_off y_off)
          (concat (map (\<lambda>i. map (\<lambda>j. (i, j))
                              (filter (\<lambda>j. coverage g i j \<noteq> 0) [0 .. bitmap_width g - 1]))
                       [i .. bitmap_rows g - 1])) fb"
proof (induction set_pixel g x y x_off y_off i fb rule: draw_rows.induct)
  case (1 set_pixel g x y x_off y_off i fb)
  show ?case
  proof (cases "i < bitmap_rows g")
    case True
    then have u: "[i .. bitmap_rows g - 1] = i # [i + 1 .. bitmap_rows g - 1]"
      by (simp add: upto_rec1)
    show ?thesis
      using True "1.IH" [OF True refl]
      by (subst draw_rows.simps) (simp add: u Let_def draw_columns_cells)
  next
    case False
    then show ?thesis
      by (subst draw_rows.simps) simp
  qed
qed

lemma inked_cells_rows:
  "inked_cells g =
     concat (map (\<lambda>i. map (\<lambda>j. (i, j))
                         (filter (\<lambda>j. coverage g i j \<noteq> 0) [0 .. bitmap_width g - 1]))
                 [0 .. bitmap_rows g - 1])"
  by (simp add: inked_cells_def List.product_concat_map filter_concat filter_map comp_def)

lemma set_inked_cells:
  "set (inked_cells g) =
     {(i, j). 0 \<le> i \<and> i < bitmap_rows g \<and> 0 \<le> j \<and> j < bitmap_width g \<and> coverage g i j \<noteq> 0}"
  by (auto simp: inked_cells_def)

lemma distinct_inked_cells: "distinct (inked_cells g)"
  by (simp add: inked_cells_def distinct_product)

lemma face_draw_char_on_sink_fold:
  "face_draw_char_on_sink set_pixel face sink c penX penY =
     (fold (write_cell set_pixel (glyph face c) penX penY
              ((metrics_horiAdvance (glyph face c) sdiv 64
                - metrics_width (glyph face c) sdiv 64) sdiv 2)
              (bbox_yMax face sdiv 64 - metrics_horiBearingY (glyph face c) sdiv 64))
           (inked_cells (glyph face c)) sink,
      penX + metrics_horiAdvance (glyph face c) sdiv 64)"
  by (simp add: face_draw_char_on_sink_def Let_def draw_rows_fold inked_cells_rows)

text \<open>
  Claim C4. Drawing the glyph of a character at the pen position \<open>(penX, penY)\<close> calls the
  pixel sink once for each cell \<open>(i, j)\<close> of the bitmap, \<open>0 \<le> i < rows\<close> and
  \<open>0 \<le> j < width\<close>, whose coverage byte, read at the offset \<open>i * pitch + j\<close>, is not zero, in
  the order of the rows and columns, and makes no other call: a cell with coverage zero
  writes nothing. The call for the cell \<open>(i, j)\<close> is at \<open>(penX + j + xOffset, penY + i + yOffset)\<close>
  with the coverage byte on all three channels, where \<open>yOffset = bboxYMax - bearingY\<close> and
  \<open>xOffset = (advance - glyphWidth) / 2\<close>, all in pixels and with C's division. The pen moves
  to \<open>penX + advance\<close>. This holds for every sink, and so for \<^verbatim>\<open>framebuffer_set_pixel\<close>.
\<close>

theorem glyph_cells_written:
  "(let g = glyph face c;
        advance = metrics_horiAdvance g sdiv 64;
        glyphWidth = metrics_width g sdiv 64;
        xOffset = (advance - glyphWidth) sdiv 2;
        yOffset = bbox_yMax face sdiv 64 - metrics_horiBearingY g sdiv 64
    in face_draw_char_on_sink set_pixel face sink c penX penY =
         (fold (write_cell set_pixel g penX penY xOffset yOffset) (inked_cells g) sink,
          penX + advance) \<and>
       face_draw_char_on_fb face fb c penX penY =
         (fold (write_cell framebuffer_set_pixel g penX penY xOffset yOffset) (inked_cells g) fb,
          penX + advance) \<and>
       (\<forall>i j s. write_cell set_pixel g penX penY xOffset yOffset (i, j) s =
            set_pixel s (penX + j + xOffset) (penY + i + yOffset)
              (bitmap_buffer g (i * bitmap_pitch g + j))
              (bitmap_buffer g (i * bitmap_pitch g + j))
              (bitmap_buffer g (i * bitmap_pitch g + j))) \<and>
       set (inked_cells g) =
         {(i, j). 0 \<le> i \<and> i < bitmap_rows g \<and> 0 \<le> j \<and> j < bitmap_width g \<and>
                  bitmap_buffer g (i * bitmap_pitch g + j) \<noteq> 0} \<and>
       distinct (inked_cells g))"
  by (simp add: Let_def face_draw_char_on_fb_def face_draw_char_on_sink_fold
        set_inked_cells distinct_inked_cells coverage_def write_cell_def)

text \<open>
  The example glyph has ink in the cells \<open>(0, 0)\<close> and \<open>(1, 1)\<close>; the padding bytes of its rows
  are not read. With \<open>xOffset = (10 - 6) / 2 = 2\<close> and \<open>yOffset = 15 - 9 = 6\<close> the two calls
  are at \<open>(102, 206)\<close> and \<open>(103, 207)\<close>.
\<close>

theorem glyph_cells_written_witness:
  "face_draw_char_on_sink record_call example_face [] 0x61 100 200 =
     ([(102, 206, 255, 255, 255), (103, 207, 128, 128, 128)], 110)"
proof -
  have cells: "inked_cells example_glyph = [(0, 0), (1, 1)]"
    by (simp add: inked_cells_def example_glyph_def coverage_def upto_rec1)
  from glyph_cells_written [of example_face "0x61" record_call "[]" 100 200] show ?thesis
    by (simp add: Let_def example_face_def cells)
       (simp add: example_glyph_def record_call_def signed_divide_int_def)
qed

section \<open>Properties of the line aligner\<close>

text \<open>
  On a line whose count is the number of its words the loop reads inside the array and adds
  the extents of the words from \<open>idx\<close> on.
\<close>

lemma line_width_loop_sum:
  assumes "word_count glyph_line = int (length (GlyphsLine.word32 glyph_line))"
    and "0 \<le> idx" and "idx \<le> word_count glyph_line"
  shows "line_width_loop face glyph_line idx line_width =
           Some (line_width +
                 sum_list (map (\<lambda>word. fst (face_get_string_extent face word))
                               (drop (nat idx) (GlyphsLine.word32 glyph_line))))"
  using assms
proof (induction face glyph_line idx line_width rule: line_width_loop.induct)
  case (1 face glyph_line idx line_width)
  show ?case
  proof (cases "idx < word_count glyph_line")
    case True
    with "1.prems" have inr: "0 \<le> idx \<and> idx < int (length (GlyphsLine.word32 glyph_line))"
      by simp
    then have n: "nat idx < length (GlyphsLine.word32 glyph_line)"
      by linarith
    obtain word_x word_y where
      e: "face_get_string_extent face (GlyphsLine.word32 glyph_line ! nat idx) = (word_x, word_y)"
      by (cases "face_get_string_extent face (GlyphsLine.word32 glyph_line ! nat idx)")
    have d: "drop (nat idx) (GlyphsLine.word32 glyph_line) =
               (GlyphsLine.word32 glyph_line ! nat idx) #
               drop (nat (idx + 1)) (GlyphsLine.word32 glyph_line)"
      using n "1.prems"(2) by (simp add: Cons_nth_drop_Suc nat_add_distrib)
    have "line_width_loop face glyph_line (idx + 1) (line_width + word_x) =
            Some (line_width + word_x +
                 sum_list (map (\<lambda>word. fst (face_get_string_extent face word))
                               (drop (nat (idx + 1)) (GlyphsLine.word32 glyph_line))))"
      using "1.IH" [OF True inr e [symmetric]] "1.prems" True by simp
    then show ?thesis
      using True inr
      by (subst line_width_loop.simps) (simp add: e d)
  next
    case False
    with "1.prems" have "idx = word_count glyph_line" by simp
    then show ?thesis
      using "1.prems"(1) by (subst line_width_loop.simps) simp
  qed
qed

text \<open>
  Claim C5. For a line that holds at least one word (and whose count is the number of the
  words it holds) \<^verbatim>\<open>compute_init_x_to_center_line\<close> returns
  \<open>init_x + width / 2 - lineWidth / 2\<close>, where \<open>lineWidth\<close> is the sum of the widths of the
  line's words plus \<open>(word_count - 1)\<close> times the width of a space, and both divisions are
  C's, which truncate. For a line of one word \<open>lineWidth\<close> is the width of that word.
\<close>

theorem center_line_init_x:
  assumes "word_count glyph_line = int (length (GlyphsLine.word32 glyph_line))"
    and "0 < word_count glyph_line"
  shows "compute_init_x_to_center_line face glyph_line glyphs_boundary =
           Some (init_x glyphs_boundary + width glyphs_boundary sdiv 2 -
                 (sum_list (map (\<lambda>word. fst (face_get_string_extent face word))
                                (GlyphsLine.word32 glyph_line)) +
                  (word_count glyph_line - 1) * fst (face_get_string_extent face utf32_space))
                   sdiv 2)
         \<and> (\<forall>word. GlyphsLine.word32 glyph_line = [word] \<longrightarrow>
                compute_init_x_to_center_line face glyph_line glyphs_boundary =
                  Some (init_x glyphs_boundary + width glyphs_boundary sdiv 2 -
                        fst (face_get_string_extent face word) sdiv 2))"
proof -
  have "line_width_loop face glyph_line 0
          ((word_count glyph_line - 1) * fst (face_get_string_extent face utf32_space)) =
        Some ((word_count glyph_line - 1) * fst (face_get_string_extent face utf32_space) +
              sum_list (map (\<lambda>word. fst (face_get_string_extent face word))
                            (GlyphsLine.word32 glyph_line)))"
    using line_width_loop_sum [OF assms(1), of 0] assms(2) by simp
  then have main: "compute_init_x_to_center_line face glyph_line glyphs_boundary =
           Some (init_x glyphs_boundary + width glyphs_boundary sdiv 2 -
                 (sum_list (map (\<lambda>word. fst (face_get_string_extent face word))
                                (GlyphsLine.word32 glyph_line)) +
                  (word_count glyph_line - 1) * fst (face_get_string_extent face utf32_space))
                   sdiv 2)"
    by (simp add: compute_init_x_to_center_line_def Let_def add.commute)
  show ?thesis
    using main assms(1) by auto
qed

lemma example_extent4: "face_get_string_extent example_face word4 = (40, 20)"
  by (simp add: face_get_string_extent_def word4_def face_get_char_extent_def
        face_get_line_spacing_def example_face_def example_glyph_def signed_divide_int_def)

text \<open>
  In a boundary that starts at 50 and is 101 pixels wide, a line of two words of 40 pixels
  is 90 pixels wide and starts at \<open>50 + 50 - 45 = 55\<close>; a line of one such word starts at
  \<open>50 + 50 - 20 = 80\<close>.
\<close>

theorem center_line_init_x_witness:
  "word_count \<lparr>GlyphsLine.word32 = [word4, word4], y_position = 0, word_count = 2\<rparr> =
     int (length (GlyphsLine.word32
       \<lparr>GlyphsLine.word32 = [word4, word4], y_position = 0, word_count = 2\<rparr>)) \<and>
   0 < word_count \<lparr>GlyphsLine.word32 = [word4, word4], y_position = 0, word_count = 2\<rparr> \<and>
   compute_init_x_to_center_line example_face
     \<lparr>GlyphsLine.word32 = [word4, word4], y_position = 0, word_count = 2\<rparr>
     \<lparr>init_x = 50, init_y = 0, width = 101, height = 1000\<rparr> = Some 55 \<and>
   GlyphsLine.word32 \<lparr>GlyphsLine.word32 = [word4], y_position = 20, word_count = 1\<rparr> = [word4] \<and>
   compute_init_x_to_center_line example_face
     \<lparr>GlyphsLine.word32 = [word4], y_position = 20, word_count = 1\<rparr>
     \<lparr>init_x = 50, init_y = 0, width = 101, height = 1000\<rparr> = Some 80"
proof -
  have two: "word_count \<lparr>GlyphsLine.word32 = [word4, word4], y_position = 0, word_count = 2\<rparr> =
     int (length (GlyphsLine.word32
       \<lparr>GlyphsLine.word32 = [word4, word4], y_position = 0, word_count = 2\<rparr>))"
    "0 < word_count \<lparr>GlyphsLine.word32 = [word4, word4], y_position = 0, word_count = 2\<rparr>"
    by simp_all
  have one: "word_count \<lparr>GlyphsLine.word32 = [word4], y_position = 20, word_count = 1\<rparr> =
     int (length (GlyphsLine.word32
       \<lparr>GlyphsLine.word32 = [word4], y_position = 20, word_count = 1\<rparr>))"
    "0 < word_count \<lparr>GlyphsLine.word32 = [word4], y_position = 20, word_count = 1\<rparr>"
    by simp_all
  from center_line_init_x [OF two, of example_face
         "\<lparr>init_x = 50, init_y = 0, width = 101, height = 1000\<rparr>"]
       center_line_init_x [OF one, of example_face
         "\<lparr>init_x = 50, init_y = 0, width = 101, height = 1000\<rparr>"]
  show ?thesis
    by (simp add: example_extent4 example_space_x signed_divide_int_def)
qed

end
